theory Spec2Isabelle
  imports Complex_Main "HOL-Library.Word" "HOL-Library.Sublist"
begin

section \<open>JavaScript strings\<close>

text \<open>
  A JavaScript string is a sequence of UTF-16 code units.  The functions below are the
  members of \<^verbatim>\<open>String.prototype\<close> that the services call, on that representation.
\<close>

type_synonym jschar = "16 word"
type_synonym jsstring = "jschar list"

definition js :: "string \<Rightarrow> jsstring" where
  "js s = map of_char s"

definition LBRACE :: jschar where "LBRACE = 0x7B"
definition RBRACE :: jschar where "RBRACE = 0x7D"
definition BACKTICK :: jschar where "BACKTICK = 0x60"
definition NEWLINE :: jschar where "NEWLINE = 0x0A"

text \<open>White space and line terminators, as \<^verbatim>\<open>trim\<close> and the regular expression class
  \<^verbatim>\<open>\s\<close> understand them.\<close>

definition is_space :: "jschar \<Rightarrow> bool" where
  "is_space c \<longleftrightarrow>
     c \<in> set [0x09, 0x0A, 0x0B, 0x0C, 0x0D, 0x20, 0xA0, 0x1680,
                0x2028, 0x2029, 0x202F, 0x205F, 0x3000, 0xFEFF]
     \<or> (0x2000 \<le> c \<and> c \<le> 0x200A)"

definition trim :: "jsstring \<Rightarrow> jsstring" where
  "trim s = rev (dropWhile is_space (rev (dropWhile is_space s)))"

fun indexOf :: "jschar \<Rightarrow> jsstring \<Rightarrow> int" where
  "indexOf c [] = - 1"
| "indexOf c (x # xs) =
     (if x = c then 0
      else (let r = indexOf c xs in if r = - 1 then - 1 else r + 1))"

definition lastIndexOf :: "jschar \<Rightarrow> jsstring \<Rightarrow> int" where
  "lastIndexOf c s =
     (let r = indexOf c (rev s) in if r = - 1 then - 1 else int (length s) - 1 - r)"

text \<open>\<^verbatim>\<open>substring(a, b)\<close> clamps both indices to the string and swaps them when
  they are out of order.\<close>

definition substring :: "jsstring \<Rightarrow> int \<Rightarrow> int \<Rightarrow> jsstring" where
  "substring s a b =
     (let n = int (length s);
          a' = min (max a 0) n;
          b' = min (max b 0) n;
          lo = min a' b';
          hi = max a' b'
      in take (nat (hi - lo)) (drop (nat lo) s))"

text \<open>\<^verbatim>\<open>a || b\<close> on an optional string: the empty string and \<^verbatim>\<open>undefined\<close> are
  both falsy.\<close>

definition or_else :: "jsstring option \<Rightarrow> jsstring \<Rightarrow> jsstring" where
  "or_else a d = (case a of None \<Rightarrow> d | Some s \<Rightarrow> if s = [] then d else s)"

section \<open>services/geminiService.ts: cleanJsonResponse\<close>

definition FENCE :: jsstring where "FENCE = [BACKTICK, BACKTICK, BACKTICK]"
definition FENCE_JSON :: jsstring where "FENCE_JSON = FENCE @ js ''json''"

text \<open>\<^verbatim>\<open>text.replace(/```json\n?|```/g, '')\<close>: the scan goes left to right; at each
  position the first alternative is tried before the second, the optional newline is
  greedy, and the scan resumes behind a match.\<close>

fun replace_fences :: "jsstring \<Rightarrow> jsstring" where
  "replace_fences [] = []"
| "replace_fences (c # cs) =
     (if prefix FENCE_JSON (c # cs) then
        (if prefix [NEWLINE] (drop 7 (c # cs)) then replace_fences (drop 8 (c # cs))
         else replace_fences (drop 7 (c # cs)))
      else if prefix FENCE (c # cs) then replace_fences (drop 3 (c # cs))
      else c # replace_fences cs)"

definition cleanJsonResponse :: "jsstring option \<Rightarrow> jsstring" where
  "cleanJsonResponse text =
     (case text of
        None \<Rightarrow> js ''{}''
      | Some t \<Rightarrow>
          if t = [] then js ''{}''
          else
            (let cleaned = trim (replace_fences t);
                 startBrace = indexOf LBRACE cleaned;
                 endBrace = lastIndexOf RBRACE cleaned
             in if startBrace \<noteq> - 1 \<and> endBrace \<noteq> - 1 \<and> endBrace > startBrace
                then substring cleaned startBrace (endBrace + 1)
                else cleaned))"

text \<open>The two notions the description of the sanitizer uses: a code-fence marker occurs
  in a text, and a text holds an opening brace with a closing brace somewhere behind it.\<close>

definition has_fence :: "jsstring \<Rightarrow> bool" where
  "has_fence t \<longleftrightarrow> sublist FENCE t"

definition has_brace_pair :: "jsstring \<Rightarrow> bool" where
  "has_brace_pair c \<longleftrightarrow> (\<exists>j<length c. \<exists>i<j. c ! i = LBRACE \<and> c ! j = RBRACE)"

text \<open>
  The stripping of the markers, described in two passes for comparison with the scan
  above.  A marker is a fence mark, three backticks, alone or with the tag \<^verbatim>\<open>json\<close>
  directly behind it, and then with the newline directly behind the tag.  The first pass
  cuts the text at its fence marks, found from the left; the second takes the tag, and the
  newline behind the tag, from the front of every piece that follows a mark.  Every other
  tag, and a newline behind a mark without tag, stays.
\<close>

fun split_at_fences :: "jsstring \<Rightarrow> jsstring list" where
  "split_at_fences [] = [[]]"
| "split_at_fences (c # cs) =
     (if prefix FENCE (c # cs) then [] # split_at_fences (drop 3 (c # cs))
      else (case split_at_fences cs of
              [] \<Rightarrow> [[c]]
            | p # ps \<Rightarrow> (c # p) # ps))"

definition drop_json_tag :: "jsstring \<Rightarrow> jsstring" where
  "drop_json_tag p =
     (if prefix (js ''json'' @ [NEWLINE]) p then drop 5 p
      else if prefix (js ''json'') p then drop 4 p
      else p)"

definition strip_markers :: "jsstring \<Rightarrow> jsstring" where
  "strip_markers t =
     (case split_at_fences t of
        [] \<Rightarrow> []
      | p # ps \<Rightarrow> p @ concat (map drop_json_tag ps))"

text \<open>Three fenced texts of the examples: a fenced array with the tag \<^verbatim>\<open>json\<close>, the same
  array with the tag \<^verbatim>\<open>js\<close>, and a fenced object inside prose and blanks.\<close>

definition fenced_json_text :: jsstring where
  "fenced_json_text = js ''```json'' @ [NEWLINE] @ js ''[1]'' @ [NEWLINE] @ js ''```''"

definition fenced_js_text :: jsstring where
  "fenced_js_text = js ''```js'' @ [NEWLINE] @ js ''[1]'' @ [NEWLINE] @ js ''```''"

definition fenced_object_text :: jsstring where
  "fenced_object_text = js '' Result: ```json{a}``` ''"

section \<open>StockCard: the reply's JSON part\<close>

text \<open>\<^verbatim>\<open>text.match(/\{[\s\S]*\}/)\<close>: the leftmost position where the pattern matches,
  and there the longest match.  \<^verbatim>\<open>[\s\S]\<close> accepts every code unit, so behind an
  opening brace the greedy star runs to the last closing brace of the text.\<close>

fun upto_last_rbrace :: "jsstring \<Rightarrow> jsstring option" where
  "upto_last_rbrace [] = None"
| "upto_last_rbrace (c # cs) =
     (case upto_last_rbrace cs of
        Some m \<Rightarrow> Some (c # m)
      | None \<Rightarrow> if c = RBRACE then Some [c] else None)"

fun jsonMatch :: "jsstring \<Rightarrow> jsstring option" where
  "jsonMatch [] = None"
| "jsonMatch (c # cs) =
     (if c = LBRACE then
        (case upto_last_rbrace cs of
           Some m \<Rightarrow> Some (c # m)
         | None \<Rightarrow> jsonMatch cs)
      else jsonMatch cs)"

section \<open>JavaScript values\<close>

text \<open>
  The values \<^verbatim>\<open>JSON.parse\<close> produces, and \<^verbatim>\<open>undefined\<close>.  A number is an IEEE double:
  a finite value (a rational; the two zeros are not told apart here) or an infinity.  An
  object is the list of its own properties, each key once.
\<close>

datatype jsnum = Finite rat | PosInfinity | NegInfinity

datatype jsval =
    JUndefined
  | JNull
  | JBool bool
  | JNumber jsnum
  | JString jsstring
  | JArray "jsval list"
  | JObject "(jsstring \<times> jsval) list"

text \<open>
  A thrown value, as a \<^verbatim>\<open>catch\<close> clause reads it: any value can be thrown.  It is
  \<^verbatim>\<open>undefined\<close> or \<^verbatim>\<open>null\<close>, or it is another value, given by its \<^verbatim>\<open>message\<close>
  property, a string or missing.  Reading the \<^verbatim>\<open>message\<close> of \<^verbatim>\<open>undefined\<close> or
  \<^verbatim>\<open>null\<close> throws a TypeError.
\<close>

datatype thrown = Nullish | Thrown "jsstring option"

definition TypeError :: thrown where
  "TypeError = Thrown (Some (js ''Cannot read properties of undefined''))"

definition read_message :: "thrown \<Rightarrow> thrown + jsstring option" where
  "read_message e = (case e of Nullish \<Rightarrow> Inl TypeError | Thrown m \<Rightarrow> Inr m)"

text \<open>An awaited call either throws or returns.\<close>

datatype 'a outcome = Threw thrown | Returned 'a

text \<open>Truthiness, as \<^verbatim>\<open>!v\<close> and \<^verbatim>\<open>v || d\<close> test it.\<close>

fun truthy :: "jsval \<Rightarrow> bool" where
  "truthy JUndefined = False"
| "truthy JNull = False"
| "truthy (JBool b) = b"
| "truthy (JNumber n) = (n \<noteq> Finite 0)"
| "truthy (JString s) = (s \<noteq> [])"
| "truthy (JArray xs) = True"
| "truthy (JObject kvs) = True"

text \<open>A property key that is an array index: a decimal numeral without leading zero.\<close>

definition is_digit :: "jschar \<Rightarrow> bool" where
  "is_digit c \<longleftrightarrow> 0x30 \<le> c \<and> c \<le> 0x39"

definition index_of_key :: "jsstring \<Rightarrow> nat option" where
  "index_of_key k =
     (if k \<noteq> [] \<and> list_all is_digit k \<and> (hd k \<noteq> 0x30 \<or> k = [0x30])
      then Some (foldl (\<lambda>a c. 10 * a + unat (c - 0x30)) 0 k)
      else None)"

text \<open>The own enumerable properties of a value, which the object spread
  \<^verbatim>\<open>{...v}\<close> copies: those of an object, the elements of an array and the code units of
  a string under their indices, none for the other values.\<close>

fun spread :: "jsval \<Rightarrow> (jsstring \<rightharpoonup> jsval)" where
  "spread (JObject kvs) = map_of kvs"
| "spread (JArray xs) =
     (\<lambda>k. case index_of_key k of
             Some i \<Rightarrow> if i < length xs then Some (xs ! i) else None
           | None \<Rightarrow> None)"
| "spread (JString s) =
     (\<lambda>k. case index_of_key k of
             Some i \<Rightarrow> if i < length s then Some (JString [s ! i]) else None
           | None \<Rightarrow> None)"
| "spread v = Map.empty"

text \<open>Reading the property \<open>k\<close> of a value.  On \<^verbatim>\<open>undefined\<close> and \<^verbatim>\<open>null\<close> the read
  throws a TypeError; a property that is missing reads as \<^verbatim>\<open>undefined\<close>.  Arrays and
  strings have a \<^verbatim>\<open>length\<close>.  The components read \<^verbatim>\<open>history\<close>,
  \<^verbatim>\<open>currentPrice\<close> and \<^verbatim>\<open>length\<close> only, none of which is inherited by an object,
  a number or a boolean.\<close>

definition own_or_undefined :: "jsval \<Rightarrow> jsstring \<Rightarrow> jsval" where
  "own_or_undefined v k = (case spread v k of Some x \<Rightarrow> x | None \<Rightarrow> JUndefined)"

fun get_prop :: "jsval \<Rightarrow> jsstring \<Rightarrow> thrown + jsval" where
  "get_prop JUndefined k = Inl TypeError"
| "get_prop JNull k = Inl TypeError"
| "get_prop (JArray xs) k =
     Inr (if k = js ''length'' then JNumber (Finite (of_nat (length xs)))
          else own_or_undefined (JArray xs) k)"
| "get_prop (JString s) k =
     Inr (if k = js ''length'' then JNumber (Finite (of_nat (length s)))
          else own_or_undefined (JString s) k)"
| "get_prop v k = Inr (own_or_undefined v k)"

text \<open>\<^verbatim>\<open>JSON.parse\<close> belongs to the platform.  The components take it as a parameter:
  a function from a text to the parsed value or to the SyntaxError it throws.  The
  function below is the parser that knows the listed texts only; the examples use it on
  these texts.\<close>

type_synonym json_parser = "jsstring \<Rightarrow> thrown + jsval"

definition SyntaxError :: thrown where
  "SyntaxError = Thrown (Some (js ''Unexpected token''))"

definition parse_table :: "(jsstring \<times> jsval) list \<Rightarrow> json_parser" where
  "parse_table tbl s = (case map_of tbl s of Some v \<Rightarrow> Inr v | None \<Rightarrow> Inl SyntaxError)"

text \<open>The texts of the examples and their values under \<^verbatim>\<open>JSON.parse\<close>: a prompt
  package, two quotes, and a quote with an empty history.\<close>

definition package_text :: jsstring where
  \<open>package_text = js ''{"jsonPrompt": "List the keys", "exampleJson": "{}"}''\<close>

definition package_parsed :: jsval where
  "package_parsed =
     JObject [(js ''jsonPrompt'', JString (js ''List the keys'')),
              (js ''exampleJson'', JString (js ''{}''))]"

definition quote_A_text :: jsstring where
  \<open>quote_A_text = js ''{"currentPrice": 101, "history": [{"date": "Mon", "price": 100}]}''\<close>

definition quote_A_parsed :: jsval where
  "quote_A_parsed =
     JObject [(js ''currentPrice'', JNumber (Finite 101)),
              (js ''history'', JArray [JObject [(js ''date'', JString (js ''Mon'')),
                                               (js ''price'', JNumber (Finite 100))]])]"

definition quote_B_text :: jsstring where
  \<open>quote_B_text = js ''{"currentPrice": 202, "history": [{"date": "Mon", "price": 200}]}''\<close>

definition quote_B_parsed :: jsval where
  "quote_B_parsed =
     JObject [(js ''currentPrice'', JNumber (Finite 202)),
              (js ''history'', JArray [JObject [(js ''date'', JString (js ''Mon'')),
                                               (js ''price'', JNumber (Finite 200))]])]"

definition empty_history_text :: jsstring where
  \<open>empty_history_text = js ''{"currentPrice": 10, "history": []}''\<close>

definition empty_history_parsed :: jsval where
  "empty_history_parsed =
     JObject [(js ''currentPrice'', JNumber (Finite 10)), (js ''history'', JArray [])]"

definition sample_parse :: json_parser where
  "sample_parse =
     parse_table
       [(js ''{}'', JObject []),
        (package_text, package_parsed),
        (quote_A_text, quote_A_parsed),
        (quote_B_text, quote_B_parsed),
        (empty_history_text, empty_history_parsed)]"

section \<open>The remote model's replies\<close>

text \<open>What the components read of a \<^verbatim>\<open>generateContent\<close> reply: its text and the
  grounding chunks of its candidates.  Every link of the chain
  \<^verbatim>\<open>candidates?.[0]?.groundingMetadata?.groundingChunks\<close> may be missing.\<close>

record web_ref =
  web_title :: "jsstring option"
  web_uri :: "jsstring option"

record chunk =
  web :: "web_ref option"

record metadata =
  groundingChunks :: "chunk list option"

record candidate =
  groundingMetadata :: "metadata option"

record response =
  resp_text :: "jsstring option"
  candidates :: "candidate list option"

definition grounding_chunks :: "response \<Rightarrow> chunk list option" where
  "grounding_chunks r =
     (case candidates r of
        None \<Rightarrow> None
      | Some [] \<Rightarrow> None
      | Some (c # _) \<Rightarrow>
          (case groundingMetadata c of None \<Rightarrow> None | Some m \<Rightarrow> groundingChunks m))"

text \<open>A reply with the given text and no candidates, and a reply that cites one web
  page.\<close>

definition reply :: "jsstring option \<Rightarrow> response" where
  "reply t = \<lparr> resp_text = t, candidates = None \<rparr>"

definition cited_reply :: "jsstring option \<Rightarrow> jsstring \<Rightarrow> jsstring \<Rightarrow> response" where
  "cited_reply t ttl u =
     \<lparr> resp_text = t,
       candidates = Some [\<lparr> groundingMetadata = Some \<lparr> groundingChunks =
         Some [\<lparr> web = Some \<lparr> web_title = Some ttl, web_uri = Some u \<rparr> \<rparr>] \<rparr> \<rparr>] \<rparr>"

text \<open>
  Grounding chunks of the examples: a chunk that cites a web page, a reply with given
  chunks, four chunks without usable citation (the placeholder uri, no web reference, no
  uri, the empty uri), and eight chunks of which six are usable, the second of them without
  title.
\<close>

definition page :: "jsstring \<Rightarrow> jsstring \<Rightarrow> chunk" where
  "page ttl u = \<lparr> web = Some \<lparr> web_title = Some ttl, web_uri = Some u \<rparr> \<rparr>"

definition chunks_reply :: "jsstring option \<Rightarrow> chunk list \<Rightarrow> response" where
  "chunks_reply t cs =
     \<lparr> resp_text = t,
       candidates = Some [\<lparr> groundingMetadata = Some \<lparr> groundingChunks = Some cs \<rparr> \<rparr>] \<rparr>"

definition unusable_chunks :: "chunk list" where
  "unusable_chunks =
     [page (js ''Docs'') (js ''#''),
      \<lparr> web = None \<rparr>,
      \<lparr> web = Some \<lparr> web_title = Some (js ''Spec''), web_uri = None \<rparr> \<rparr>,
      page (js ''Guide'') []]"

definition many_chunks :: "chunk list" where
  "many_chunks =
     [page (js ''One'') (js ''https://a.example/1''),
      page (js ''Hash'') (js ''#''),
      \<lparr> web = Some \<lparr> web_title = None, web_uri = Some (js ''https://a.example/2'') \<rparr> \<rparr>,
      \<lparr> web = None \<rparr>,
      page (js ''Three'') (js ''https://a.example/3''),
      page (js ''Four'') (js ''https://a.example/4''),
      page (js ''Five'') (js ''https://a.example/5''),
      page (js ''Six'') (js ''https://a.example/6'')]"

section \<open>services/geminiService.ts: discoverJsonPrompts\<close>

record source =
  title :: jsstring
  uri :: jsstring

text \<open>The object \<^verbatim>\<open>{ ...parsed, sources: \<dots> }\<close>: the \<^verbatim>\<open>sources\<close> property written by
  the function, and the properties copied from the parsed reply under every other key.\<close>

record searchResult =
  parsed_props :: "jsstring \<rightharpoonup> jsval"
  sources :: "source list"

text \<open>The two prompts are templates; a request is given by the values put into its
  template.\<close>

datatype request =
    ResearchPrompt jsstring
  | SynthesisPrompt jsstring jsstring

type_synonym generateContent = "request \<Rightarrow> response outcome"

definition chunk_source :: "chunk \<Rightarrow> source" where
  "chunk_source c =
     \<lparr> title = or_else (case web c of None \<Rightarrow> None | Some w \<Rightarrow> web_title w)
                 (js ''Grounded Reference''),
       uri = or_else (case web c of None \<Rightarrow> None | Some w \<Rightarrow> web_uri w) (js ''#'') \<rparr>"

definition extract_sources :: "response \<Rightarrow> source list" where
  "extract_sources searchResponse =
     take 5 (filter (\<lambda>s. uri s \<noteq> js ''#'')
       (map chunk_source
         (case grounding_chunks searchResponse of None \<Rightarrow> [] | Some cs \<Rightarrow> cs)))"

text \<open>
  A usable citation, read off a grounding chunk directly: the chunk has a web reference
  whose uri is present, not empty and not the placeholder \<^verbatim>\<open>#\<close>.  Its source has that
  uri, and the title of the reference or, when that is missing or empty, the title
  \<^verbatim>\<open>Grounded Reference\<close>.
\<close>

definition citation :: "chunk \<Rightarrow> source option" where
  "citation c =
     (case web c of
        None \<Rightarrow> None
      | Some w \<Rightarrow>
          (case web_uri w of
             None \<Rightarrow> None
           | Some u \<Rightarrow>
               if u = [] \<or> u = js ''#'' then None
               else Some \<lparr> title = (case web_title w of
                                      None \<Rightarrow> js ''Grounded Reference''
                                    | Some t \<Rightarrow> if t = [] then js ''Grounded Reference'' else t),
                           uri = u \<rparr>))"

definition fallback_source :: source where
  "fallback_source = \<lparr> title = js ''General Industry Documentation'', uri = js ''#'' \<rparr>"

text \<open>The sources of the first five usable citations among the eight chunks of the
  examples.\<close>

definition first_five :: "source list" where
  "first_five =
     [\<lparr> title = js ''One'', uri = js ''https://a.example/1'' \<rparr>,
      \<lparr> title = js ''Grounded Reference'', uri = js ''https://a.example/2'' \<rparr>,
      \<lparr> title = js ''Three'', uri = js ''https://a.example/3'' \<rparr>,
      \<lparr> title = js ''Four'', uri = js ''https://a.example/4'' \<rparr>,
      \<lparr> title = js ''Five'', uri = js ''https://a.example/5'' \<rparr>]"

definition fallback_message :: jsstring where
  "fallback_message = js ''The synthesis engine encountered a logic fault. Please retry.''"

text \<open>The body of the \<^verbatim>\<open>try\<close> block: the thrown value, or the object returned.\<close>

definition discover_try ::
  "json_parser \<Rightarrow> generateContent \<Rightarrow> jsstring \<Rightarrow> thrown + searchResult" where
  "discover_try JSON_parse generate query =
     (case generate (ResearchPrompt query) of
        Threw e \<Rightarrow> Inl e
      | Returned searchResponse \<Rightarrow>
          (let researchText = or_else (resp_text searchResponse) (js ''No grounded data available.'');
               srcs = extract_sources searchResponse
           in case generate (SynthesisPrompt query researchText) of
                Threw e \<Rightarrow> Inl e
              | Returned formatResponse \<Rightarrow>
                  (let rawResult = or_else (resp_text formatResponse) (js ''{}'')
                   in case JSON_parse (cleanJsonResponse (Some rawResult)) of
                        Inl e \<Rightarrow> Inl e
                      | Inr parsed \<Rightarrow>
                          Inr \<lparr> parsed_props = (spread parsed)(js ''sources'' := None),
                                sources = (if length srcs > 0 then srcs
                                           else [fallback_source]) \<rparr>)))"

text \<open>The \<^verbatim>\<open>catch\<close> clause: it reads the message of the caught value and throws a new
  Error with that message or the fallback message.  When the read throws, its TypeError
  leaves the function.\<close>

definition discoverJsonPrompts ::
  "json_parser \<Rightarrow> generateContent \<Rightarrow> jsstring \<Rightarrow> thrown + searchResult" where
  "discoverJsonPrompts JSON_parse generate query =
     (case discover_try JSON_parse generate query of
        Inl error \<Rightarrow>
          (case read_message error of
             Inl typeError \<Rightarrow> Inl typeError
           | Inr m \<Rightarrow> Inl (Thrown (Some (or_else m fallback_message))))
      | Inr result \<Rightarrow> Inr result)"

text \<open>A property of the returned object is present and a non-empty string.\<close>

definition nonempty_string :: "jsval option \<Rightarrow> bool" where
  "nonempty_string v = (case v of Some (JString s) \<Rightarrow> s \<noteq> [] | _ \<Rightarrow> False)"

section \<open>StockCard: fetchMarketData and the refresh effect\<close>

text \<open>The object \<^verbatim>\<open>{ ...parsed, sourceUrl }\<close> that \<^verbatim>\<open>setData\<close> stores.\<close>

record marketData =
  market_props :: "jsstring \<rightharpoonup> jsval"
  sourceUrl :: "jsstring option"

record error_info =
  err_message :: jsstring
  hint :: jsstring

text \<open>
  The state of the component: the five state variables the poller uses, the interval
  held by \<^verbatim>\<open>refreshInterval\<close>, and the fetches that await their reply.  A render's
  \<^verbatim>\<open>fetchMarketData\<close> reads the \<^verbatim>\<open>activeSymbol\<close> of that render; so the interval
  is given by the symbol its callback asks for, and a fetch in flight by the symbol of its
  request and its \<^verbatim>\<open>isInitial\<close> argument.
\<close>

record stockCard =
  activeSymbol :: jsstring
  data :: "marketData option"
  isLoading :: bool
  error :: "error_info option"
  isRefreshing :: bool
  refreshInterval :: "jsstring option"
  pending :: "(jsstring \<times> bool) list"

definition first_chunk_uri :: "response \<Rightarrow> jsstring option" where
  "first_chunk_uri r =
     (case grounding_chunks r of
        None \<Rightarrow> None
      | Some [] \<Rightarrow> None
      | Some (c # _) \<Rightarrow> (case web c of None \<Rightarrow> None | Some w \<Rightarrow> web_uri w))"

text \<open>\<^verbatim>\<open>fetchMarketData\<close> up to its \<^verbatim>\<open>await\<close>.\<close>

definition fetchMarketData_begin :: "bool \<Rightarrow> jsstring \<Rightarrow> stockCard \<Rightarrow> stockCard" where
  "fetchMarketData_begin isInitial symbol st =
     (let st1 = (if isInitial then st\<lparr> isLoading := True, data := None \<rparr>
                 else st\<lparr> isRefreshing := True \<rparr>)
      in st1\<lparr> error := None, pending := pending st1 @ [(symbol, isInitial)] \<rparr>)"

text \<open>The test
  \<^verbatim>\<open>!parsed.history || parsed.history.length === 0 || typeof parsed.currentPrice !== 'number'\<close>,
  evaluated from left to right; a property read may throw.\<close>

definition is_number :: "jsval \<Rightarrow> bool" where
  "is_number v = (case v of JNumber n \<Rightarrow> True | _ \<Rightarrow> False)"

definition incomplete :: "jsval \<Rightarrow> thrown + bool" where
  "incomplete parsed =
     (case get_prop parsed (js ''history'') of
        Inl e \<Rightarrow> Inl e
      | Inr history \<Rightarrow>
          if \<not> truthy history then Inr True
          else
            (case get_prop history (js ''length'') of
               Inl e \<Rightarrow> Inl e
             | Inr len \<Rightarrow>
                 if len = JNumber (Finite 0) then Inr True
                 else
                   (case get_prop parsed (js ''currentPrice'') of
                      Inl e \<Rightarrow> Inl e
                    | Inr price \<Rightarrow> Inr (\<not> is_number price))))"

text \<open>The body of the \<^verbatim>\<open>try\<close> block from the \<^verbatim>\<open>await\<close> on: the thrown value, or
  the object it passes to \<^verbatim>\<open>setData\<close>.\<close>

definition fetch_try :: "json_parser \<Rightarrow> response outcome \<Rightarrow> thrown + marketData" where
  "fetch_try JSON_parse out =
     (case out of
        Threw e \<Rightarrow> Inl e
      | Returned response \<Rightarrow>
          (let txt = or_else (resp_text response) [];
               srcUrl = first_chunk_uri response
           in case jsonMatch txt of
                None \<Rightarrow>
                  Inl (Thrown (Some (js
                    ''Logic Sync Failure: The model returned a malformed response format.'')))
              | Some m \<Rightarrow>
                  (case JSON_parse m of
                     Inl e \<Rightarrow> Inl e
                   | Inr parsed \<Rightarrow>
                       (case incomplete parsed of
                          Inl e \<Rightarrow> Inl e
                        | Inr True \<Rightarrow>
                            Inl (Thrown (Some (js
                              ''Data Incomplete: The market feed returned an empty dataset for this asset.'')))
                        | Inr False \<Rightarrow>
                            Inr \<lparr> market_props = (spread parsed)(js ''sourceUrl'' := None),
                                  sourceUrl = srcUrl \<rparr>))))"

text \<open>The \<^verbatim>\<open>catch\<close> clause and the \<^verbatim>\<open>finally\<close> clause.  When the read of the caught
  value's message throws, the clause ends there, before it sets the error state.\<close>

definition fetch_catch :: "bool \<Rightarrow> thrown \<Rightarrow> stockCard \<Rightarrow> stockCard" where
  "fetch_catch isInitial err st =
     (case read_message err of
        Inl typeError \<Rightarrow> st
      | Inr m \<Rightarrow>
          (let errorMessage = or_else m (js ''Establishing Signal failed.'');
               hint =
                 (if sublist (js ''malformed'') errorMessage then
                    js ''The search engine could not structure the price data correctly. Retrying might solve this.''
                  else if sublist (js ''empty'') errorMessage then
                    js ''No recent historical price data was found for this symbol on the web.''
                  else js ''Check your connection or verify the asset ticker symbol is correct.'')
           in if isInitial
              then st\<lparr> error := Some \<lparr> err_message = errorMessage, hint = hint \<rparr> \<rparr>
              else st))"

definition fetch_finally :: "stockCard \<Rightarrow> stockCard" where
  "fetch_finally st = st\<lparr> isLoading := False, isRefreshing := False \<rparr>"

text \<open>\<^verbatim>\<open>fetchMarketData\<close> from its \<^verbatim>\<open>await\<close> on, given the outcome of the call: the
  state it leaves, and the value its promise rejects with, if it rejects.\<close>

definition fetchMarketData_end ::
  "json_parser \<Rightarrow> bool \<Rightarrow> response outcome \<Rightarrow> stockCard \<Rightarrow> stockCard" where
  "fetchMarketData_end JSON_parse isInitial out st =
     fetch_finally
       (case fetch_try JSON_parse out of
          Inl err \<Rightarrow> fetch_catch isInitial err st
        | Inr d \<Rightarrow> st\<lparr> data := Some d \<rparr>)"

definition fetchMarketData_rejects :: "json_parser \<Rightarrow> response outcome \<Rightarrow> thrown option" where
  "fetchMarketData_rejects JSON_parse out =
     (case fetch_try JSON_parse out of
        Inl err \<Rightarrow> (case read_message err of Inl typeError \<Rightarrow> Some typeError | Inr m \<Rightarrow> None)
      | Inr d \<Rightarrow> None)"

text \<open>The effect on \<^verbatim>\<open>[activeSymbol]\<close>: its body, its cleanup, and the first render.\<close>

definition effect :: "stockCard \<Rightarrow> stockCard" where
  "effect st =
     (fetchMarketData_begin True (activeSymbol st) st)
       \<lparr> refreshInterval := Some (activeSymbol st) \<rparr>"

definition cleanup :: "stockCard \<Rightarrow> stockCard" where
  "cleanup st = st\<lparr> refreshInterval := None \<rparr>"

definition mount :: "jsstring \<Rightarrow> stockCard" where
  "mount initialSymbol =
     effect \<lparr> activeSymbol = initialSymbol, data = None, isLoading = True, error = None,
              isRefreshing = False, refreshInterval = None, pending = [] \<rparr>"

text \<open>
  What happens to a mounted component: \<^verbatim>\<open>setActiveSymbol\<close> with a value (a new value
  renders again, which runs the cleanup and then the effect), the interval fires, or the
  reply of the fetch at a position of the pending list arrives.
\<close>

datatype event =
    SetActiveSymbol jsstring
  | Tick
  | Reply nat "response outcome"

definition step :: "json_parser \<Rightarrow> stockCard \<Rightarrow> event \<Rightarrow> stockCard" where
  "step JSON_parse st ev =
     (case ev of
        SetActiveSymbol s \<Rightarrow>
          if s = activeSymbol st then st
          else effect (cleanup (st\<lparr> activeSymbol := s \<rparr>))
      | Tick \<Rightarrow>
          (case refreshInterval st of
             None \<Rightarrow> st
           | Some symbol \<Rightarrow> fetchMarketData_begin False symbol st)
      | Reply i out \<Rightarrow>
          if i < length (pending st)
          then fetchMarketData_end JSON_parse (snd (pending st ! i)) out
                 (st\<lparr> pending := take i (pending st) @ drop (Suc i) (pending st) \<rparr>)
          else st)"

definition run :: "json_parser \<Rightarrow> stockCard \<Rightarrow> event list \<Rightarrow> stockCard" where
  "run JSON_parse st evs = foldl (step JSON_parse) st evs"

text \<open>The snapshot a reply is stored as, when it is accepted.\<close>

definition snapshot :: "jsval \<Rightarrow> response \<Rightarrow> marketData" where
  "snapshot parsed response =
     \<lparr> market_props = (spread parsed)(js ''sourceUrl'' := None),
       sourceUrl = first_chunk_uri response \<rparr>"

text \<open>A reply is accepted: it has a JSON part, the part parses, and the test for an
  incomplete value does not fire.\<close>

definition accepted :: "json_parser \<Rightarrow> response \<Rightarrow> jsval \<Rightarrow> bool" where
  "accepted JSON_parse response parsed \<longleftrightarrow>
     (case jsonMatch (or_else (resp_text response) []) of
        None \<Rightarrow> False
      | Some m \<Rightarrow> JSON_parse m = Inr parsed \<and> incomplete parsed = Inr False)"

text \<open>The parsed reply has no history or an empty one, or its current price is not a
  number.\<close>

definition lacks_history_or_price :: "jsval \<Rightarrow> bool" where
  "lacks_history_or_price parsed \<longleftrightarrow>
     get_prop parsed (js ''history'') = Inr JUndefined
     \<or> get_prop parsed (js ''history'') = Inr (JArray [])
     \<or> (case get_prop parsed (js ''currentPrice'') of
           Inr (JNumber n) \<Rightarrow> False
         | _ \<Rightarrow> True)"

section \<open>ChatWidget: handleSend\<close>

datatype role = User | Model

record message =
  msg_id :: jsstring
  role :: role
  msg_text :: jsstring

text \<open>The two properties of the \<^verbatim>\<open>currentContext\<close> prop that the widget reads, typed as
  \<^verbatim>\<open>types.ts\<close> declares them.\<close>

record chat_context =
  ctx_title :: jsstring
  ctx_jsonPrompt :: jsstring

text \<open>
  The state of the widget: the three state variables \<^verbatim>\<open>handleSend\<close> uses, the chat
  held by \<^verbatim>\<open>chatInstance\<close>, given by the context it was created with (\<open>None\<close>: no chat
  yet), and the \<^verbatim>\<open>currentContext\<close> prop of the current render (\<open>None\<close>: no context).
\<close>

record chatWidget =
  messages :: "message list"
  input :: jsstring
  isTyping :: bool
  chatInstance :: "chat_context option option"
  currentContext :: "chat_context option"

text \<open>\<^verbatim>\<open>n.toString()\<close> for a natural number (a value of \<^verbatim>\<open>Date.now()\<close>).\<close>

function decimal :: "nat \<Rightarrow> jsstring" where
  "decimal n =
     (if n < 10 then [0x30 + of_nat n]
      else decimal (n div 10) @ [0x30 + of_nat (n mod 10)])"
  by pat_completeness auto
termination
  by (relation "measure (\<lambda>n. n)") auto

declare decimal.simps [simp del]


text \<open>
  The effect on \<^verbatim>\<open>[currentContext?.title]\<close>: it drops the chat and, when there is a
  context, replaces the messages by one message that names the context's title.  It runs
  after the first render and after every render whose context has another title than the
  render before (a missing context has the title \<^verbatim>\<open>undefined\<close>).  The number is the
  value of \<^verbatim>\<open>Date.now()\<close>.
\<close>

definition analysed_message :: "chat_context \<Rightarrow> nat \<Rightarrow> message" where
  "analysed_message c now =
     \<lparr> msg_id = decimal now, role = Model,
       msg_text = js ''I'' @ [0x27] @ js ''ve analyzed the '' @ [0x22] @ ctx_title c @ [0x22]
                  @ js '' structure. Ready for refinements.'' \<rparr>"

definition context_effect :: "nat \<Rightarrow> chatWidget \<Rightarrow> chatWidget" where
  "context_effect now st =
     (let st1 = st\<lparr> chatInstance := None \<rparr>
      in case currentContext st of
           None \<Rightarrow> st1
         | Some c \<Rightarrow> st1\<lparr> messages := [analysed_message c now] \<rparr>)"


definition render_with :: "chat_context option \<Rightarrow> nat \<Rightarrow> chatWidget \<Rightarrow> chatWidget" where
  "render_with ctx now st =
     (let st1 = st\<lparr> currentContext := ctx \<rparr>
      in if map_option ctx_title ctx = map_option ctx_title (currentContext st) then st1
         else context_effect now st1)"

text \<open>
  What \<^verbatim>\<open>initChat\<close> and the stream do for one message: creating the chat throws,
  \<^verbatim>\<open>sendMessageStream\<close> throws, the stream delivers its chunks and ends, or it delivers
  chunks and then throws.  A chunk's text may be missing.
\<close>

datatype stream =
    InitThrew
  | SendThrew
  | Chunks "jsstring option list"
  | ChunksThenThrew "jsstring option list"

definition setInput :: "jsstring \<Rightarrow> chatWidget \<Rightarrow> chatWidget" where
  "setInput v st = st\<lparr> input := v \<rparr>"

definition initChat :: "chatWidget \<Rightarrow> chatWidget" where
  "initChat st =
     (case chatInstance st of
        None \<Rightarrow> st\<lparr> chatInstance := Some (currentContext st) \<rparr>
      | Some c \<Rightarrow> st)"

text \<open>The updater of the loop: a copy of the list whose last message gets the text.  On
  the empty list the assignment to \<^verbatim>\<open>newMessages[-1].text\<close> throws (\<open>None\<close>).\<close>

definition set_last_text :: "jsstring \<Rightarrow> message list \<Rightarrow> message list option" where
  "set_last_text fullResponse prev =
     (if prev = [] then None
      else Some (prev[length prev - 1 := (prev ! (length prev - 1))\<lparr> msg_text := fullResponse \<rparr>]))"

text \<open>The \<^verbatim>\<open>for await\<close> loop over the chunks, with \<^verbatim>\<open>fullResponse\<close> and the message
  list.\<close>

fun stream_loop :: "jsstring option list \<Rightarrow> jsstring \<Rightarrow> message list \<Rightarrow> message list option" where
  "stream_loop [] fullResponse msgs = Some msgs"
| "stream_loop (c # cs) fullResponse msgs =
     (let textChunk = or_else c [];
          fullResponse' = fullResponse @ textChunk
      in case set_last_text fullResponse' msgs of
           None \<Rightarrow> None
         | Some msgs' \<Rightarrow> stream_loop cs fullResponse' msgs')"

definition send_catch :: "chatWidget \<Rightarrow> chatWidget" where
  "send_catch st =
     st\<lparr> messages := messages st @
            [\<lparr> msg_id = js ''err'', role = Model, msg_text = js ''Logic trace failed.'' \<rparr>] \<rparr>"

text \<open>
  \<^verbatim>\<open>handleSend\<close> with the stream run to its end, in the render the state describes.
  The two numbers are the values of \<^verbatim>\<open>Date.now()\<close> at the two places that read it.
  The result is \<open>None\<close> when an updater of the loop throws, which is outside the
  \<^verbatim>\<open>try\<close> block.
\<close>

definition handleSend :: "nat \<Rightarrow> nat \<Rightarrow> stream \<Rightarrow> chatWidget \<Rightarrow> chatWidget option" where
  "handleSend now1 now2 result st =
     (if trim (input st) = [] \<or> isTyping st then Some st
      else
        (let userMessage = trim (input st);
             messageId = decimal now1;
             st1 = st\<lparr> input := [],
                       messages := messages st @
                         [\<lparr> msg_id = messageId, role = User, msg_text = userMessage \<rparr>],
                       isTyping := True \<rparr>;
             responseId = decimal (now2 + 1);
             opened = (\<lambda>s. s\<lparr> messages := messages s @
                         [\<lparr> msg_id = responseId, role = Model, msg_text = [] \<rparr>] \<rparr>);
             tried =
               (case result of
                  InitThrew \<Rightarrow> Some (send_catch st1)
                | SendThrew \<Rightarrow> Some (send_catch (initChat st1))
                | Chunks cs \<Rightarrow>
                    (let st2 = opened (initChat st1)
                     in case stream_loop cs [] (messages st2) of
                          None \<Rightarrow> None
                        | Some msgs \<Rightarrow> Some (st2\<lparr> messages := msgs \<rparr>))
                | ChunksThenThrew cs \<Rightarrow>
                    (let st2 = opened (initChat st1)
                     in case stream_loop cs [] (messages st2) of
                          None \<Rightarrow> None
                        | Some msgs \<Rightarrow> Some (send_catch (st2\<lparr> messages := msgs \<rparr>))))
         in case tried of
              None \<Rightarrow> None
            | Some st3 \<Rightarrow> Some (st3\<lparr> isTyping := False \<rparr>)))"

text \<open>Sending a message: the text is typed into the input and the form is submitted.\<close>

definition send :: "jsstring \<Rightarrow> nat \<Rightarrow> nat \<Rightarrow> stream \<Rightarrow> chatWidget \<Rightarrow> chatWidget option" where
  "send txt now1 now2 result st = handleSend now1 now2 result (setInput txt st)"

text \<open>The text of the chunks in the order of their arrival.\<close>

definition fragments_text :: "jsstring option list \<Rightarrow> jsstring" where
  "fragments_text cs = concat (map (\<lambda>c. or_else c []) cs)"

section \<open>ResultView: validateAgainstSchema and deriveSchemaFromExample\<close>

datatype tab = Json | Ts | Schema | Cloud | Integration

text \<open>The two properties of the \<^verbatim>\<open>result\<close> prop that the two handlers read, typed as
  \<^verbatim>\<open>types.ts\<close> declares them: a string, possibly missing.\<close>

record result_props =
  jsonSchema :: "jsstring option"
  exampleJson :: "jsstring option"

record resultView =
  activeTab :: tab
  isValidatingSchema :: bool
  validationReport :: "jsstring option"
  isDerivingSchema :: bool
  derivedSchema :: "jsstring option"
  schemaError :: "jsstring option"

text \<open>\<^verbatim>\<open>a || b\<close> on two optional strings.\<close>

definition or_opt :: "jsstring option \<Rightarrow> jsstring option \<Rightarrow> jsstring option" where
  "or_opt a b = (case a of None \<Rightarrow> b | Some s \<Rightarrow> if s = [] then b else Some s)"

text \<open>The \<^verbatim>\<open>contents\<close> of the request \<^verbatim>\<open>validateAgainstSchema\<close> sends; \<open>None\<close> when
  it returns before sending, which it does when the schema or the example is missing or
  empty.\<close>

definition audit_request :: "result_props \<Rightarrow> resultView \<Rightarrow> jsstring option" where
  "audit_request result st =
     (case or_opt (derivedSchema st) (jsonSchema result) of
        None \<Rightarrow> None
      | Some schemaToUse \<Rightarrow>
          (case exampleJson result of
             None \<Rightarrow> None
           | Some example \<Rightarrow>
               if schemaToUse = [] \<or> example = [] then None
               else Some (js ''Validate JSON against Schema. Report in Markdown. Schema: ''
                          @ schemaToUse @ js '' JSON: '' @ example)))"

text \<open>The two handlers, each with its one remote call run to its end.  The remote call is
  a function from the \<^verbatim>\<open>contents\<close> of the request to its outcome.\<close>

definition validateAgainstSchema ::
  "(jsstring \<Rightarrow> response outcome) \<Rightarrow> result_props \<Rightarrow> resultView \<Rightarrow> resultView" where
  "validateAgainstSchema generate result st =
     (case audit_request result st of
        None \<Rightarrow> st
      | Some auditPrompt \<Rightarrow>
          (let st1 = st\<lparr> isValidatingSchema := True, validationReport := None \<rparr>;
               st2 = (case generate auditPrompt of
                        Returned response \<Rightarrow>
                          st1\<lparr> validationReport :=
                                 Some (or_else (resp_text response) (js ''Validation complete.'')) \<rparr>
                      | Threw e \<Rightarrow>
                          st1\<lparr> validationReport := Some (js ''Schema audit failed.'') \<rparr>)
           in st2\<lparr> isValidatingSchema := False \<rparr>))"



text \<open>Validation calls one after the other, each with its own remote outcome.\<close>

definition validations ::
  "(jsstring \<Rightarrow> response outcome) list \<Rightarrow> result_props \<Rightarrow> resultView \<Rightarrow> resultView" where
  "validations gens result st = foldl (\<lambda>s g. validateAgainstSchema g result s) st gens"



section \<open>Properties\<close>

subsection \<open>Strings and braces\<close>

lemma indexOf_char:
  "indexOf c s = (if c \<in> set s then int (length (takeWhile (\<lambda>x. x \<noteq> c) s)) else - 1)"
  by (induction s) (auto simp: Let_def)

lemma indexOf_split:
  assumes "c \<in> set s"
  shows "\<exists>pre rest. s = pre @ c # rest \<and> c \<notin> set pre \<and> indexOf c s = int (length pre)"
proof -
  from assms obtain pre rest where "s = pre @ c # rest" "c \<notin> set pre"
    by (meson split_list_first)
  moreover from this have "takeWhile (\<lambda>x. x \<noteq> c) s = pre"
    by (auto simp: takeWhile_tail)
  ultimately show ?thesis using assms by (auto simp: indexOf_char)
qed

lemma lastIndexOf_split:
  assumes "c \<in> set s"
  shows "\<exists>pre post. s = pre @ c # post \<and> c \<notin> set post \<and> lastIndexOf c s = int (length pre)"
proof -
  from assms obtain pre post where s: "s = pre @ c # post" "c \<notin> set post"
    by (meson split_list_last)
  then have "rev s = rev post @ c # rev pre" by simp
  then have "takeWhile (\<lambda>x. x \<noteq> c) (rev s) = rev post" using s(2)
    by (auto simp: takeWhile_tail)
  then have "indexOf c (rev s) = int (length post)" using assms by (simp add: indexOf_char)
  then show ?thesis using s by (auto simp: lastIndexOf_def Let_def)
qed

lemma lastIndexOf_none: "c \<notin> set s \<Longrightarrow> lastIndexOf c s = - 1"
  by (simp add: lastIndexOf_def indexOf_char)

lemma substring_mid:
  "substring (pre @ mid @ post) (int (length pre)) (int (length pre + length mid)) = mid"
proof -
  let ?n = "int (length (pre @ mid @ post))"
  let ?a = "int (length pre)" and ?b = "int (length pre + length mid)"
  have a: "min (max ?a 0) ?n = ?a" by simp
  have b: "min (max ?b 0) ?n = ?b" by simp
  have lo: "min ?a ?b = ?a" and hi: "max ?a ?b = ?b" by simp_all
  have "substring (pre @ mid @ post) ?a ?b = take (nat (?b - ?a)) (drop (nat ?a) (pre @ mid @ post))"
    unfolding substring_def Let_def a b lo hi ..
  also have "\<dots> = mid" by simp
  finally show ?thesis .
qed

lemma append_overlap: 
  assumes lt: "length pre < length pre'" and eq: "pre @ x # rest = pre' @ y # post"
  shows "\<exists>mid. pre' = pre @ x # mid \<and> rest = mid @ y # post"
proof -
  define us where "us = drop (length pre) pre'"
  from eq have "take (length pre) (pre @ x # rest) = take (length pre) (pre' @ y # post)"
    by simp
  with lt have "pre = take (length pre) pre'" by simp
  then have p: "pre' = pre @ us" unfolding us_def by (metis append_take_drop_id)
  with lt have "us \<noteq> []" by auto
  then obtain u mid where us: "us = u # mid" by (cases us) auto
  from eq p have "x # rest = us @ y # post" by simp
  with us p show ?thesis by simp
qed

lemma braces_found:
  fixes pre mid post :: jsstring
  defines "c \<equiv> pre @ LBRACE # mid @ RBRACE # post"
  assumes "LBRACE \<notin> set pre" "RBRACE \<notin> set post"
  shows "indexOf LBRACE c = int (length pre)"
    and "lastIndexOf RBRACE c = int (length pre + length mid + 1)"
proof -
  have "takeWhile (\<lambda>x. x \<noteq> LBRACE) c = pre"
    using assms(2) by (auto simp: c_def takeWhile_tail)
  then show "indexOf LBRACE c = int (length pre)"
    by (simp add: indexOf_char c_def)
  have "rev c = rev post @ RBRACE # rev (pre @ LBRACE # mid)" by (simp add: c_def)
  then have "takeWhile (\<lambda>x. x \<noteq> RBRACE) (rev c) = rev post"
    using assms(3) by (auto simp: takeWhile_tail)
  then have "indexOf RBRACE (rev c) = int (length post)"
    by (simp add: indexOf_char c_def)
  then show "lastIndexOf RBRACE c = int (length pre + length mid + 1)"
    by (simp add: lastIndexOf_def c_def)
qed

lemma brace_pair_split:
  assumes "has_brace_pair c"
  shows "\<exists>pre mid post. c = pre @ LBRACE # mid @ RBRACE # post
            \<and> LBRACE \<notin> set pre \<and> RBRACE \<notin> set post"
proof -
  from assms obtain i j where ij: "i < j" "j < length c" "c ! i = LBRACE" "c ! j = RBRACE"
    by (auto simp: has_brace_pair_def)
  then have "LBRACE \<in> set c" "RBRACE \<in> set c"
    by (metis nth_mem order.strict_trans)+
  then obtain pre rest pre' post where
    1: "c = pre @ LBRACE # rest" "LBRACE \<notin> set pre" and
    2: "c = pre' @ RBRACE # post" "RBRACE \<notin> set post"
    by (meson split_list_first split_list_last)
  have "length pre \<le> i"
  proof (rule ccontr)
    assume "\<not> length pre \<le> i"
    then have "c ! i = pre ! i" "pre ! i \<in> set pre" using 1(1) by (simp_all add: nth_append)
    with ij(3) 1(2) show False by simp
  qed
  have "j \<le> length pre'"
  proof (rule ccontr)
    assume "\<not> j \<le> length pre'"
    then have "c ! j = post ! (j - length pre' - 1)" "j - length pre' - 1 < length post"
      using 2(1) ij(2) by (auto simp: nth_append nth_Cons')
    with ij(4) 2(2) show False by (metis nth_mem)
  qed
  with \<open>length pre \<le> i\<close> ij(1) have lt: "length pre < length pre'" by simp
  from 1(1) 2(1) have "pre @ LBRACE # rest = pre' @ RBRACE # post" by simp
  from append_overlap[OF lt this] obtain mid where "pre' = pre @ LBRACE # mid" by blast
  with 2 have "c = pre @ LBRACE # mid @ RBRACE # post" by simp
  with 1(2) 2(2) show ?thesis by blast
qed

lemma split_brace_pair:
  "has_brace_pair (pre @ LBRACE # mid @ RBRACE # post)"
  unfolding has_brace_pair_def
  by (rule exI[of _ "length pre + length mid + 1"], simp,
      rule exI[of _ "length pre"], simp add: nth_append)

lemma braces_found_pair:
  assumes "indexOf LBRACE c \<noteq> - 1" "lastIndexOf RBRACE c \<noteq> - 1"
    "lastIndexOf RBRACE c > indexOf LBRACE c"
  shows "has_brace_pair c"
proof -
  from assms(1) have "LBRACE \<in> set c" by (auto simp: indexOf_char split: if_splits)
  from assms(2) have "RBRACE \<in> set c" using lastIndexOf_none by blast
  from indexOf_split[OF \<open>LBRACE \<in> set c\<close>] obtain pre rest where
    1: "c = pre @ LBRACE # rest" "indexOf LBRACE c = int (length pre)" by blast
  from lastIndexOf_split[OF \<open>RBRACE \<in> set c\<close>] obtain pre' post where
    2: "c = pre' @ RBRACE # post" "lastIndexOf RBRACE c = int (length pre')" by blast
  have "c ! length pre = LBRACE" "c ! length pre' = RBRACE"
    using 1(1) 2(1) by (metis nth_append_length)+
  moreover have "length c = length pre' + Suc (length post)" by (subst 2(1)) simp
  then have "length pre' < length c" by simp
  moreover have "length pre < length pre'" using assms(3) 1(2) 2(2) by simp
  ultimately show ?thesis unfolding has_brace_pair_def by blast
qed

lemma clean_braces:
  assumes "t \<noteq> []" "trim (replace_fences t) = pre @ LBRACE # mid @ RBRACE # post"
    "LBRACE \<notin> set pre" "RBRACE \<notin> set post"
  shows "cleanJsonResponse (Some t) = LBRACE # mid @ [RBRACE]"
proof -
  let ?c = "pre @ LBRACE # mid @ RBRACE # post"
  have i: "indexOf LBRACE ?c = int (length pre)"
    and j: "lastIndexOf RBRACE ?c = int (length pre + length mid + 1)"
    using braces_found[OF assms(3,4)] by simp_all
  have "substring (pre @ (LBRACE # mid @ [RBRACE]) @ post) (int (length pre))
          (int (length pre + length (LBRACE # mid @ [RBRACE]))) = LBRACE # mid @ [RBRACE]"
    by (rule substring_mid)
  then have "substring ?c (int (length pre)) (int (length pre + length mid + 1) + 1)
      = LBRACE # mid @ [RBRACE]" by (simp add: add.commute add.left_commute)
  then show ?thesis using assms(1)
    by (simp add: cleanJsonResponse_def assms(2) i j Let_def del: of_nat_add)
qed

lemma clean_no_braces:
  assumes "t \<noteq> []" "\<not> has_brace_pair (trim (replace_fences t))"
  shows "cleanJsonResponse (Some t) = trim (replace_fences t)"
  using assms braces_found_pair[of "trim (replace_fences t)"]
  by (auto simp: cleanJsonResponse_def Let_def)


subsection \<open>Fence markers\<close>

lemma FENCE_JSON_prefix: "prefix FENCE_JSON s \<Longrightarrow> prefix FENCE s"
  unfolding FENCE_JSON_def by (rule append_prefixD)

lemma replace_fences_keep:
  "\<not> prefix FENCE (c # cs) \<Longrightarrow> replace_fences (c # cs) = c # replace_fences cs"
  using FENCE_JSON_prefix[of "c # cs"] by auto

lemmas replace_fences_Cons = replace_fences.simps(2)

declare replace_fences.simps(2) [simp del]

lemma no_tick1: "\<not> prefix [BACKTICK] s \<Longrightarrow> \<not> prefix [BACKTICK] (replace_fences s)"
proof (cases s)
  case (Cons c cs)
  assume "\<not> prefix [BACKTICK] s"
  with Cons have "c \<noteq> BACKTICK" by simp
  then have "\<not> prefix FENCE (c # cs)" by (simp add: FENCE_def)
  then show ?thesis using Cons \<open>c \<noteq> BACKTICK\<close> by (simp add: replace_fences_keep)
qed simp

lemma no_tick2:
  "\<not> prefix [BACKTICK, BACKTICK] s \<Longrightarrow> \<not> prefix [BACKTICK, BACKTICK] (replace_fences s)"
proof (cases s)
  case (Cons c cs)
  assume a: "\<not> prefix [BACKTICK, BACKTICK] s"
  with Cons have nf: "\<not> prefix FENCE (c # cs)" by (auto simp: FENCE_def prefix_def)
  from a Cons have "c \<noteq> BACKTICK \<or> \<not> prefix [BACKTICK] cs" by auto
  then have "c \<noteq> BACKTICK \<or> \<not> prefix [BACKTICK] (replace_fences cs)"
    using no_tick1 by blast
  then show ?thesis using Cons by (auto simp: replace_fences_keep[OF nf])
qed simp

lemma replace_fences_no_fence: "\<not> has_fence (replace_fences s)"
proof (induction s rule: replace_fences.induct)
  case 1
  show ?case by (simp add: has_fence_def FENCE_def)
next
  case (2 c cs)
  show ?case
  proof (cases "prefix FENCE (c # cs)")
    case True
    with 2 show ?thesis by (auto simp: replace_fences_Cons)
  next
    case False
    then have "c \<noteq> BACKTICK \<or> \<not> prefix [BACKTICK, BACKTICK] cs"
      by (auto simp: FENCE_def)
    then have "c \<noteq> BACKTICK \<or> \<not> prefix [BACKTICK, BACKTICK] (replace_fences cs)"
      using no_tick2 by blast
    then have "\<not> prefix FENCE (c # replace_fences cs)" by (auto simp: FENCE_def)
    moreover from False 2 have "\<not> has_fence (replace_fences cs)"
      using FENCE_JSON_prefix[of "c # cs"] by auto
    ultimately show ?thesis
      using False by (simp add: replace_fences_keep has_fence_def sublist_Cons_right)
  qed
qed

lemma replace_fences_id: "\<not> has_fence t \<Longrightarrow> replace_fences t = t"
proof (induction t)
  case (Cons c cs)
  then have "\<not> prefix FENCE (c # cs)" "\<not> has_fence cs"
    by (auto simp: has_fence_def sublist_Cons_right)
  with Cons.IH show ?case by (simp add: replace_fences_keep)
qed simp

lemma has_fence_segment: "has_fence b \<Longrightarrow> has_fence (a @ b @ c)"
  unfolding has_fence_def by (meson sublist_appendI sublist_order.order_trans)

subsection \<open>trim\<close>

lemma LBRACE_not_space: "\<not> is_space LBRACE"
  by (simp add: is_space_def LBRACE_def)

lemma RBRACE_not_space: "\<not> is_space RBRACE"
  by (simp add: is_space_def RBRACE_def)

lemma trim_segment: "\<exists>a b. s = a @ trim s @ b"
proof -
  let ?d = "dropWhile is_space s"
  have "s = takeWhile is_space s @ ?d" by simp
  moreover have "rev ?d = takeWhile is_space (rev ?d) @ dropWhile is_space (rev ?d)" by simp
  then have "?d = trim s @ rev (takeWhile is_space (rev ?d))"
    unfolding trim_def by (metis rev_append rev_rev_ident)
  ultimately show ?thesis by (metis append.assoc)
qed

lemma trim_braces:
  "trim (pre @ LBRACE # mid @ RBRACE # post)
     = dropWhile is_space pre @ LBRACE # mid @ RBRACE # rev (dropWhile is_space (rev post))"
proof -
  have 1: "dropWhile is_space (pre @ LBRACE # mid @ RBRACE # post)
      = dropWhile is_space pre @ LBRACE # mid @ RBRACE # post"
    by (simp add: dropWhile_append3 LBRACE_not_space)
  have "rev (dropWhile is_space pre @ LBRACE # mid @ RBRACE # post)
      = rev post @ RBRACE # rev (dropWhile is_space pre @ LBRACE # mid)" by simp
  then have "dropWhile is_space (rev (dropWhile is_space pre @ LBRACE # mid @ RBRACE # post))
      = dropWhile is_space (rev post) @ RBRACE # rev (dropWhile is_space pre @ LBRACE # mid)"
    by (simp add: dropWhile_append3 RBRACE_not_space)
  then show ?thesis unfolding trim_def 1 by simp
qed

lemma trim_fixed:
  assumes "t = [] \<or> (\<not> is_space (hd t) \<and> \<not> is_space (last t))"
  shows "trim t = t"
proof (cases t)
  case (Cons x xs)
  with assms have h: "\<not> is_space x" and l: "\<not> is_space (last t)" by simp_all
  from h Cons have 1: "dropWhile is_space t = t" by simp
  from Cons have "rev t \<noteq> []" "hd (rev t) = last t" by (simp_all add: hd_rev)
  with l have "dropWhile is_space (rev t) = rev t"
    by (metis dropWhile.simps(2) list.collapse)
  then show ?thesis unfolding trim_def 1 by simp
qed (simp add: trim_def)

lemma trim_ends: "trim s = [] \<or> (\<not> is_space (hd (trim s)) \<and> \<not> is_space (last (trim s)))"
proof -
  let ?d = "dropWhile is_space s"
  let ?e = "dropWhile is_space (rev ?d)"
  show ?thesis
  proof (cases "?e = []")
    case True
    then show ?thesis by (simp add: trim_def)
  next
    case False
    then have e: "\<not> is_space (hd ?e)" by (rule hd_dropWhile)
    have "?d \<noteq> []"
    proof
      assume "?d = []"
      then have "?e = []" by (simp only: rev.simps dropWhile.simps)
      with False show False ..
    qed
    then have d: "\<not> is_space (hd ?d)" by (rule hd_dropWhile)
    have l: "last (trim s) = hd ?e" using False by (simp add: trim_def last_rev)
    obtain k where k: "?e = drop k (rev ?d)" by (metis dropWhile_eq_drop)
    with False have "k < length ?d" by auto
    have "hd (trim s) = last ?e" using False by (simp add: trim_def hd_rev)
    also have "\<dots> = last (rev ?d)" using False unfolding k by (simp add: last_drop)
    also have "\<dots> = hd ?d" using \<open>?d \<noteq> []\<close> by (simp add: last_rev)
    finally show ?thesis using d e l by simp
  qed
qed

lemma trim_trim: "trim (trim s) = trim s"
  by (rule trim_fixed) (rule trim_ends)

subsection \<open>The poller's regular expression\<close>

lemma upto_last_rbrace_none: "RBRACE \<notin> set s \<Longrightarrow> upto_last_rbrace s = None"
  by (induction s) auto

lemma upto_last_rbrace_split:
  "RBRACE \<notin> set post \<Longrightarrow> upto_last_rbrace (mid @ RBRACE # post) = Some (mid @ [RBRACE])"
  by (induction mid) (auto simp: upto_last_rbrace_none)

lemma jsonMatch_split:
  "LBRACE \<notin> set pre \<Longrightarrow> RBRACE \<notin> set post \<Longrightarrow>
   jsonMatch (pre @ LBRACE # mid @ RBRACE # post) = Some (LBRACE # mid @ [RBRACE])"
  by (induction pre) (auto simp: upto_last_rbrace_split)

lemma upto_last_rbrace_mem: "upto_last_rbrace s = Some m \<Longrightarrow> RBRACE \<in> set s"
  using upto_last_rbrace_none by fastforce

lemma has_brace_pair_Cons: "has_brace_pair cs \<Longrightarrow> has_brace_pair (c # cs)"
proof -
  assume "has_brace_pair cs"
  then obtain pre mid post where "cs = pre @ LBRACE # mid @ RBRACE # post"
    using brace_pair_split by blast
  then have "c # cs = (c # pre) @ LBRACE # mid @ RBRACE # post" by simp
  then show ?thesis using split_brace_pair by metis
qed

lemma jsonMatch_Some: "jsonMatch s = Some m \<Longrightarrow> has_brace_pair s"
proof (induction s)
  case (Cons c cs)
  show ?case
  proof (cases "c = LBRACE \<and> upto_last_rbrace cs \<noteq> None")
    case True
    then have "RBRACE \<in> set cs" using upto_last_rbrace_mem by blast
    then obtain a b where "cs = a @ RBRACE # b" by (meson split_list)
    then have "c # cs = [] @ LBRACE # a @ RBRACE # b" using True by simp
    then show ?thesis using split_brace_pair by metis
  next
    case False
    with Cons.prems have "jsonMatch cs = Some m" by (auto split: if_splits)
    then show ?thesis using Cons.IH has_brace_pair_Cons by blast
  qed
qed simp

subsection \<open>The two-pass description of the stripping\<close>

lemma split_at_fences_not_Nil: "split_at_fences t \<noteq> []"
  by (induction t rule: split_at_fences.induct) (auto split: list.splits)

lemma split_at_fences_keep:
  assumes "\<not> prefix FENCE (c # cs)"
  shows "split_at_fences (c # cs) = (c # hd (split_at_fences cs)) # tl (split_at_fences cs)"
  using assms split_at_fences_not_Nil[of cs] by (auto split: list.splits)

lemma split_at_fences_mark:
  "split_at_fences (FENCE @ r) = [] # split_at_fences r"
  by (simp add: FENCE_def)

lemmas split_at_fences_Cons = split_at_fences.simps(2)

declare split_at_fences.simps(2) [simp del]

lemma strip_markers_pieces:
  "strip_markers t
     = hd (split_at_fences t) @ concat (map drop_json_tag (tl (split_at_fences t)))"
  using split_at_fences_not_Nil[of t] by (cases "split_at_fences t") (simp_all add: strip_markers_def)

lemma split_at_fences_kept:
  assumes "BACKTICK \<notin> set k"
  shows "split_at_fences (k @ r) = (k @ hd (split_at_fences r)) # tl (split_at_fences r)"
  using assms
proof (induction k)
  case Nil
  show ?case using split_at_fences_not_Nil[of r] by simp
next
  case (Cons c k)
  then have "\<not> prefix FENCE (c # k @ r)" by (simp add: FENCE_def)
  then show ?case using Cons by (simp add: split_at_fences_keep)
qed

lemma first_piece_prefix: "prefix (hd (split_at_fences r)) r"
proof (induction r rule: split_at_fences.induct)
  case 1
  show ?case by simp
next
  case (2 c cs)
  show ?case
  proof (cases "prefix FENCE (c # cs)")
    case True
    then show ?thesis by (simp add: split_at_fences_Cons)
  next
    case False
    with 2 show ?thesis by (simp add: split_at_fences_keep)
  qed
qed

lemma json_no_backtick: "BACKTICK \<notin> set (js ''json'')" "BACKTICK \<notin> set (js ''json'' @ [NEWLINE])"
  by (simp_all add: js_def BACKTICK_def NEWLINE_def)

lemma strip_markers_keep:
  "\<not> prefix FENCE (c # cs) \<Longrightarrow> strip_markers (c # cs) = c # strip_markers cs"
  by (simp add: strip_markers_pieces split_at_fences_keep)

lemma strip_markers_json_newline:
  "strip_markers (FENCE @ js ''json'' @ NEWLINE # r) = strip_markers r"
proof -
  have "split_at_fences ((js ''json'' @ [NEWLINE]) @ r)
      = ((js ''json'' @ [NEWLINE]) @ hd (split_at_fences r)) # tl (split_at_fences r)"
    by (rule split_at_fences_kept) (rule json_no_backtick)
  then have "split_at_fences (FENCE @ js ''json'' @ NEWLINE # r)
      = [] # ((js ''json'' @ [NEWLINE]) @ hd (split_at_fences r)) # tl (split_at_fences r)"
    using split_at_fences_mark[of "js ''json'' @ NEWLINE # r"] by simp
  moreover have "drop_json_tag ((js ''json'' @ [NEWLINE]) @ hd (split_at_fences r))
      = hd (split_at_fences r)"
    by (simp add: drop_json_tag_def js_def)
  ultimately show ?thesis by (simp add: strip_markers_pieces)
qed

lemma strip_markers_json:
  assumes "\<not> prefix [NEWLINE] r"
  shows "strip_markers (FENCE @ js ''json'' @ r) = strip_markers r"
proof -
  let ?p = "hd (split_at_fences r)"
  have "split_at_fences (js ''json'' @ r) = (js ''json'' @ ?p) # tl (split_at_fences r)"
    by (rule split_at_fences_kept) (rule json_no_backtick)
  then have s: "split_at_fences (FENCE @ js ''json'' @ r)
      = [] # (js ''json'' @ ?p) # tl (split_at_fences r)"
    using split_at_fences_mark[of "js ''json'' @ r"] by simp
  have "\<not> prefix [NEWLINE] ?p"
    using assms first_piece_prefix[of r] by (meson prefix_order.order_trans)
  then have "\<not> prefix (js ''json'' @ [NEWLINE]) (js ''json'' @ ?p)" by simp
  then have "drop_json_tag (js ''json'' @ ?p) = ?p"
    by (simp add: drop_json_tag_def) (simp add: js_def)
  with s show ?thesis by (simp add: strip_markers_pieces)
qed

lemma strip_markers_mark:
  assumes "\<not> prefix (js ''json'') r"
  shows "strip_markers (FENCE @ r) = strip_markers r"
proof -
  let ?p = "hd (split_at_fences r)"
  have 1: "\<not> prefix (js ''json'') ?p"
    using assms first_piece_prefix[of r] by (meson prefix_order.order_trans)
  then have 2: "\<not> prefix (js ''json'' @ [NEWLINE]) ?p" by (meson append_prefixD)
  from 1 2 have "drop_json_tag ?p = ?p" by (simp add: drop_json_tag_def)
  then show ?thesis
    using split_at_fences_not_Nil[of r]
    by (cases "split_at_fences r") (simp_all add: strip_markers_def split_at_fences_mark)
qed

lemma prefix_take_drop: "prefix p s \<Longrightarrow> s = p @ drop (length p) s"
  by (auto simp: prefix_def)

lemma length_markers: "length FENCE = 3" "length FENCE_JSON = 7" "length (js ''json'') = 4"
  by (simp_all add: FENCE_def FENCE_JSON_def js_def)

text \<open>The scan of the source and the two-pass description give the same text.\<close>

lemma replace_fences_strip_markers: "replace_fences t = strip_markers t"
proof (induction t rule: replace_fences.induct)
  case 1
  show ?case by (simp add: strip_markers_def)
next
  case (2 c cs)
  show ?case
  proof (cases "prefix FENCE_JSON (c # cs)")
    case fj: True
    then obtain r where r: "c # cs = FENCE_JSON @ r" by (auto simp: prefix_def)
    have d7: "drop 7 (c # cs) = r" unfolding r by (simp add: length_markers)
    show ?thesis
    proof (cases "prefix [NEWLINE] r")
      case True
      then obtain r' where r': "r = NEWLINE # r'" by (auto simp: prefix_def)
      have d8: "drop 8 (c # cs) = r'" unfolding r r' by (simp add: length_markers)
      have "replace_fences (c # cs) = replace_fences (drop 8 (c # cs))"
        using fj True d7 by (simp add: replace_fences_Cons)
      also have "\<dots> = strip_markers (drop 8 (c # cs))"
        using fj True d7 by (intro 2(1)) simp_all
      also have "\<dots> = strip_markers (FENCE @ js ''json'' @ NEWLINE # r')"
        unfolding d8 by (rule strip_markers_json_newline[symmetric])
      also have "FENCE @ js ''json'' @ NEWLINE # r' = c # cs"
        unfolding r r' by (simp add: FENCE_JSON_def)
      finally show ?thesis .
    next
      case False
      have "replace_fences (c # cs) = replace_fences (drop 7 (c # cs))"
        using fj False d7 by (simp add: replace_fences_Cons)
      also have "\<dots> = strip_markers (drop 7 (c # cs))"
        using fj False d7 by (intro 2(2)) simp_all
      also have "\<dots> = strip_markers (FENCE @ js ''json'' @ r)"
        unfolding d7 using False by (rule strip_markers_json[symmetric])
      also have "FENCE @ js ''json'' @ r = c # cs"
        unfolding r by (simp add: FENCE_JSON_def)
      finally show ?thesis .
    qed
  next
    case nfj: False
    show ?thesis
    proof (cases "prefix FENCE (c # cs)")
      case True
      then obtain r where r: "c # cs = FENCE @ r" by (auto simp: prefix_def)
      have d3: "drop 3 (c # cs) = r" unfolding r by (simp add: length_markers)
      have nj: "\<not> prefix (js ''json'') r"
      proof
        assume "prefix (js ''json'') r"
        then have "prefix (FENCE @ js ''json'') (FENCE @ r)" by simp
        with nfj show False unfolding r by (simp add: FENCE_JSON_def)
      qed
      have "replace_fences (c # cs) = replace_fences (drop 3 (c # cs))"
        using nfj True by (simp add: replace_fences_Cons)
      also have "\<dots> = strip_markers (drop 3 (c # cs))"
        using nfj True by (intro 2(3)) simp_all
      also have "\<dots> = strip_markers (FENCE @ r)"
        unfolding d3 using nj by (rule strip_markers_mark[symmetric])
      also have "FENCE @ r = c # cs" unfolding r ..
      finally show ?thesis .
    next
      case False
      with 2(4)[OF nfj False] show ?thesis
        by (simp add: replace_fences_keep strip_markers_keep)
    qed
  qed
qed

subsection \<open>trim, described by its result\<close>

lemma trim_parts:
  "\<exists>a b. s = a @ trim s @ b \<and> (\<forall>x\<in>set a. is_space x) \<and> (\<forall>x\<in>set b. is_space x)"
proof -
  let ?d = "dropWhile is_space s"
  let ?b = "rev (takeWhile is_space (rev ?d))"
  have 1: "s = takeWhile is_space s @ ?d" by simp
  have "rev ?d = takeWhile is_space (rev ?d) @ dropWhile is_space (rev ?d)" by simp
  then have 2: "?d = trim s @ ?b"
    unfolding trim_def by (metis rev_append rev_rev_ident)
  have "\<forall>x\<in>set (takeWhile is_space s). is_space x" by (meson set_takeWhileD)
  moreover have "\<forall>x\<in>set ?b. is_space x" by (metis set_rev set_takeWhileD)
  moreover from 1 2 have "s = takeWhile is_space s @ trim s @ ?b" by simp
  ultimately show ?thesis by blast
qed

lemma trim_unique:
  assumes "s = a @ c @ b" "\<forall>x\<in>set a. is_space x" "\<forall>x\<in>set b. is_space x"
    "c = [] \<or> (\<not> is_space (hd c) \<and> \<not> is_space (last c))"
  shows "trim s = c"
proof (cases "c = []")
  case True
  with assms have "\<forall>x\<in>set s. is_space x" by auto
  then have d: "dropWhile is_space s = []" by simp
  show ?thesis unfolding trim_def d using True by simp
next
  case False
  with assms(4) have h: "\<not> is_space (hd c)" and l: "\<not> is_space (last c)" by simp_all
  from False h have "dropWhile is_space (c @ b) = c @ b" by (cases c) simp_all
  with assms(1,2) have d: "dropWhile is_space s = c @ b" by simp
  have "hd (rev c) = last c" "rev c \<noteq> []" using False by (simp_all add: hd_rev)
  with l have "dropWhile is_space (rev c) = rev c"
    by (metis dropWhile.simps(2) list.collapse)
  moreover have "\<forall>x\<in>set (rev b). is_space x" using assms(3) by simp
  ultimately have "dropWhile is_space (rev b @ rev c) = rev c"
    using False by (simp add: dropWhile_append)
  then show ?thesis unfolding trim_def d by simp
qed

subsection \<open>The scan at a character that belongs to no marker\<close>

lemma prefix_skip:
  assumes "x \<notin> set p"
  shows "prefix p (a @ x # b) \<longleftrightarrow> prefix p a"
proof
  assume "prefix p (a @ x # b)"
  then consider "prefix p a" | z where "p = a @ z" "prefix z (x # b)"
    by (auto simp: prefix_append)
  then show "prefix p a"
  proof cases
    case 2
    with assms have "z = []" by (cases z) auto
    with 2 show ?thesis by simp
  qed
next
  assume "prefix p a"
  then show "prefix p (a @ x # b)" by (rule prefix_prefix)
qed

lemma replace_fences_json_newline:
  "replace_fences (FENCE @ js ''json'' @ NEWLINE # r) = replace_fences r"
  by (simp only: replace_fences_strip_markers strip_markers_json_newline)

lemma replace_fences_json:
  "\<not> prefix [NEWLINE] r \<Longrightarrow> replace_fences (FENCE @ js ''json'' @ r) = replace_fences r"
  unfolding replace_fences_strip_markers by (rule strip_markers_json)

lemma replace_fences_mark:
  "\<not> prefix (js ''json'') r \<Longrightarrow> replace_fences (FENCE @ r) = replace_fences r"
  unfolding replace_fences_strip_markers by (rule strip_markers_mark)

lemma replace_fences_at:
  assumes x: "x \<noteq> BACKTICK" "x \<notin> set (js ''json'')" "x \<noteq> NEWLINE"
  shows "replace_fences (a @ x # b) = replace_fences a @ x # replace_fences b"
proof (induction a rule: replace_fences.induct)
  case 1
  from x(1) have "\<not> prefix FENCE (x # b)" by (simp add: FENCE_def)
  then show ?case by (simp add: replace_fences_keep)
next
  case (2 c cs)
  from x have xf: "x \<notin> set FENCE" "x \<notin> set [NEWLINE]" by (simp_all add: FENCE_def)
  show ?case
  proof (cases "prefix FENCE_JSON (c # cs)")
    case fj: True
    then obtain r where r: "c # cs = FENCE @ js ''json'' @ r"
      by (auto simp: prefix_def FENCE_JSON_def)
    have d7: "drop 7 (c # cs) = r" unfolding r by (simp add: length_markers)
    show ?thesis
    proof (cases "prefix [NEWLINE] r")
      case True
      then obtain r' where r': "r = NEWLINE # r'" by (auto simp: prefix_def)
      have d8: "drop 8 (c # cs) = r'" unfolding r r' by (simp add: length_markers)
      have ih: "replace_fences (r' @ x # b) = replace_fences r' @ x # replace_fences b"
        using 2(1)[OF fj] True d7 d8 by simp
      have "replace_fences ((c # cs) @ x # b)
          = replace_fences (FENCE @ js ''json'' @ NEWLINE # (r' @ x # b))"
        unfolding r r' by simp
      also have "\<dots> = replace_fences r' @ x # replace_fences b"
        by (simp only: replace_fences_json_newline ih)
      also have "replace_fences r' = replace_fences (c # cs)"
        unfolding r r' by (simp only: replace_fences_json_newline)
      finally show ?thesis .
    next
      case False
      then have n: "\<not> prefix [NEWLINE] (r @ x # b)" using prefix_skip[OF xf(2)] by blast
      have ih: "replace_fences (r @ x # b) = replace_fences r @ x # replace_fences b"
        using 2(2)[OF fj] False d7 by simp
      have "replace_fences ((c # cs) @ x # b)
          = replace_fences (FENCE @ js ''json'' @ (r @ x # b))"
        unfolding r by simp
      also have "\<dots> = replace_fences r @ x # replace_fences b"
        by (simp only: replace_fences_json[OF n] ih)
      also have "replace_fences r = replace_fences (c # cs)"
        unfolding r by (simp only: replace_fences_json[OF False])
      finally show ?thesis .
    qed
  next
    case nfj: False
    show ?thesis
    proof (cases "prefix FENCE (c # cs)")
      case True
      then obtain r where r: "c # cs = FENCE @ r" by (auto simp: prefix_def)
      have d3: "drop 3 (c # cs) = r" unfolding r by (simp add: length_markers)
      have nj: "\<not> prefix (js ''json'') r"
      proof
        assume "prefix (js ''json'') r"
        then have "prefix (FENCE @ js ''json'') (FENCE @ r)" by simp
        with nfj show False unfolding r by (simp add: FENCE_JSON_def)
      qed
      then have n: "\<not> prefix (js ''json'') (r @ x # b)" using prefix_skip[OF x(2)] by blast
      have ih: "replace_fences (r @ x # b) = replace_fences r @ x # replace_fences b"
        using 2(3)[OF nfj True] d3 by simp
      have "replace_fences ((c # cs) @ x # b) = replace_fences (FENCE @ (r @ x # b))"
        unfolding r by simp
      also have "\<dots> = replace_fences r @ x # replace_fences b"
        by (simp only: replace_fences_mark[OF n] ih)
      also have "replace_fences r = replace_fences (c # cs)"
        unfolding r by (simp only: replace_fences_mark[OF nj])
      finally show ?thesis .
    next
      case False
      then have "\<not> prefix FENCE ((c # cs) @ x # b)" using prefix_skip[OF xf(1)] by blast
      then have "replace_fences ((c # cs) @ x # b) = c # replace_fences (cs @ x # b)"
        by (simp add: replace_fences_keep)
      with 2(4)[OF nfj False] False show ?thesis by (simp add: replace_fences_keep)
    qed
  qed
qed

lemma braces_in_no_marker:
  "LBRACE \<noteq> BACKTICK" "LBRACE \<notin> set (js ''json'')" "LBRACE \<noteq> NEWLINE"
  "RBRACE \<noteq> BACKTICK" "RBRACE \<notin> set (js ''json'')" "RBRACE \<noteq> NEWLINE"
  by (simp_all add: LBRACE_def RBRACE_def BACKTICK_def NEWLINE_def js_def)

lemma replace_fences_braces:
  "replace_fences (pre @ LBRACE # mid @ RBRACE # post)
     = replace_fences pre @ LBRACE # replace_fences mid @ RBRACE # replace_fences post"
  by (simp add: replace_fences_at braces_in_no_marker)

lemma set_replace_fences: "set (replace_fences t) \<subseteq> set t"
proof (induction t rule: replace_fences.induct)
  case 1
  show ?case by simp
next
  case (2 c cs)
  have d: "\<And>n. set (drop n (c # cs)) \<subseteq> set (c # cs)" by (rule set_drop_subset)
  show ?case
  proof (cases "prefix FENCE (c # cs)")
    case True
    with 2(1,2,3) d show ?thesis
      by (simp only: replace_fences_Cons split: if_splits) (meson subset_trans)+
  next
    case False
    with 2(4) FENCE_JSON_prefix[of "c # cs"] show ?thesis
      by (auto simp: replace_fences_keep)
  qed
qed

lemma has_brace_pair_LBRACE: "has_brace_pair c \<Longrightarrow> LBRACE \<in> set c"
  using brace_pair_split by fastforce

lemma js_braces: "js ''{}'' = [LBRACE, RBRACE]"
  by (simp add: js_def LBRACE_def RBRACE_def)

lemma clean_by_parts:
  assumes "t \<noteq> []" and "strip_markers t = a @ c @ b"
    and "\<forall>x\<in>set a. is_space x" and "\<forall>x\<in>set b. is_space x"
    and "c = [] \<or> (\<not> is_space (hd c) \<and> \<not> is_space (last c))"
  shows "trim (replace_fences t) = c"
  using assms(2-5) by (simp add: replace_fences_strip_markers trim_unique)

text \<open>
  Claim C3.  \<open>cleanJsonResponse\<close> returns a string for every input.  For
  \<^verbatim>\<open>undefined\<close> and for the empty string it returns \<^verbatim>\<open>{}\<close>.  For every other input
  \<open>t\<close>, take the markers out of \<open>t\<close> (every fence mark of three backticks, with the tag
  \<^verbatim>\<open>json\<close> directly behind it and the newline directly behind that tag) and let \<open>c\<close> be
  what is left without the white space at its two ends; such a \<open>c\<close> exists.  If \<open>c\<close> holds an
  opening brace and a closing brace behind it, \<open>c\<close> splits into a part without opening
  brace, a part from an opening to a closing brace, and a part without closing brace, and
  the result is the middle part: the text from the first opening brace to the last closing
  brace, both included.  If not, the result is \<open>c\<close>.
\<close>

theorem cleanJsonResponse_spec:
  "cleanJsonResponse None = js ''{}'' \<and>
   cleanJsonResponse (Some []) = js ''{}'' \<and>
   (t \<noteq> [] \<longrightarrow>
      (\<exists>a c b. strip_markers t = a @ c @ b \<and>
         (\<forall>x\<in>set a. is_space x) \<and> (\<forall>x\<in>set b. is_space x) \<and>
         (c = [] \<or> (\<not> is_space (hd c) \<and> \<not> is_space (last c)))) \<and>
      (strip_markers t = a @ c @ b \<and>
         (\<forall>x\<in>set a. is_space x) \<and> (\<forall>x\<in>set b. is_space x) \<and>
         (c = [] \<or> (\<not> is_space (hd c) \<and> \<not> is_space (last c))) \<longrightarrow>
         (has_brace_pair c \<longrightarrow>
            (\<exists>pre mid post. c = pre @ LBRACE # mid @ RBRACE # post \<and>
               LBRACE \<notin> set pre \<and> RBRACE \<notin> set post)) \<and>
         (c = pre @ LBRACE # mid @ RBRACE # post \<and> LBRACE \<notin> set pre \<and> RBRACE \<notin> set post
            \<longrightarrow> cleanJsonResponse (Some t) = LBRACE # mid @ [RBRACE]) \<and>
         (\<not> has_brace_pair c \<longrightarrow> cleanJsonResponse (Some t) = c)))"
proof (intro conjI impI)
  show "cleanJsonResponse None = js ''{}''" by (simp add: cleanJsonResponse_def)
  show "cleanJsonResponse (Some []) = js ''{}''" by (simp add: cleanJsonResponse_def)
next
  from trim_parts[of "strip_markers t"] trim_ends[of "strip_markers t"]
  show "\<exists>a c b. strip_markers t = a @ c @ b \<and>
         (\<forall>x\<in>set a. is_space x) \<and> (\<forall>x\<in>set b. is_space x) \<and>
         (c = [] \<or> (\<not> is_space (hd c) \<and> \<not> is_space (last c)))"
    by blast
next
  assume "has_brace_pair c"
  then show "\<exists>pre mid post. c = pre @ LBRACE # mid @ RBRACE # post \<and>
               LBRACE \<notin> set pre \<and> RBRACE \<notin> set post"
    by (rule brace_pair_split)
next
  assume t: "t \<noteq> []"
    and p: "strip_markers t = a @ c @ b \<and>
         (\<forall>x\<in>set a. is_space x) \<and> (\<forall>x\<in>set b. is_space x) \<and>
         (c = [] \<or> (\<not> is_space (hd c) \<and> \<not> is_space (last c)))"
    and c: "c = pre @ LBRACE # mid @ RBRACE # post \<and> LBRACE \<notin> set pre \<and> RBRACE \<notin> set post"
  from t p have "trim (replace_fences t) = c" by (intro clean_by_parts) blast+
  with t c show "cleanJsonResponse (Some t) = LBRACE # mid @ [RBRACE]"
    using clean_braces[of t pre mid post] by blast
next
  assume t: "t \<noteq> []"
    and p: "strip_markers t = a @ c @ b \<and>
         (\<forall>x\<in>set a. is_space x) \<and> (\<forall>x\<in>set b. is_space x) \<and>
         (c = [] \<or> (\<not> is_space (hd c) \<and> \<not> is_space (last c)))"
    and n: "\<not> has_brace_pair c"
  from t p have "trim (replace_fences t) = c" by (intro clean_by_parts) blast+
  with t n show "cleanJsonResponse (Some t) = c" by (simp add: clean_no_braces)
qed

lemma strip_markers_samples:
  "strip_markers fenced_json_text = [] @ js ''[1]'' @ [NEWLINE]"
  "strip_markers fenced_js_text = [] @ (js ''js'' @ [NEWLINE] @ js ''[1]'') @ [NEWLINE]"
  "strip_markers fenced_object_text = js '' '' @ js ''Result: {a}'' @ js '' ''"
  by (simp_all add: fenced_json_text_def fenced_js_text_def fenced_object_text_def
      strip_markers_def split_at_fences_Cons drop_json_tag_def FENCE_def js_def
      BACKTICK_def NEWLINE_def)

lemma samples_trimmed:
  "\<forall>x\<in>set (js '' ''). is_space x" "\<forall>x\<in>set [NEWLINE]. is_space x"
  "\<forall>x\<in>set ([]::jsstring). is_space x"
  "js ''[1]'' = [] \<or> (\<not> is_space (hd (js ''[1]'')) \<and> \<not> is_space (last (js ''[1]'')))"
  "js ''js'' @ [NEWLINE] @ js ''[1]'' = [] \<or>
     (\<not> is_space (hd (js ''js'' @ [NEWLINE] @ js ''[1]'')) \<and>
      \<not> is_space (last (js ''js'' @ [NEWLINE] @ js ''[1]'')))"
  "js ''Result: {a}'' = [] \<or>
     (\<not> is_space (hd (js ''Result: {a}'')) \<and> \<not> is_space (last (js ''Result: {a}'')))"
  by (simp_all add: js_def is_space_def NEWLINE_def)

lemma samples_braces:
  "\<not> has_brace_pair (js ''[1]'')"
  "\<not> has_brace_pair (js ''js'' @ [NEWLINE] @ js ''[1]'')"
  "js ''Result: {a}'' = js ''Result: '' @ LBRACE # js ''a'' @ RBRACE # []"
  "LBRACE \<notin> set (js ''Result: '')" "RBRACE \<notin> set ([]::jsstring)"
proof -
  have "LBRACE \<notin> set (js ''[1]'')" "LBRACE \<notin> set (js ''js'' @ [NEWLINE] @ js ''[1]'')"
    by (simp_all add: js_def LBRACE_def NEWLINE_def)
  then show "\<not> has_brace_pair (js ''[1]'')"
    "\<not> has_brace_pair (js ''js'' @ [NEWLINE] @ js ''[1]'')"
    using has_brace_pair_LBRACE by blast+
qed (simp_all add: js_def LBRACE_def RBRACE_def)

lemma samples_nonempty:
  "fenced_json_text \<noteq> []" "fenced_js_text \<noteq> []" "fenced_object_text \<noteq> []"
  by (simp_all add: fenced_json_text_def fenced_js_text_def fenced_object_text_def js_def)

text \<open>
  Claim C3 at three inputs.  From a fenced array with the tag \<^verbatim>\<open>json\<close> the marks, the
  tag and the newlines go.  With the tag \<^verbatim>\<open>js\<close> the marks go and the tag stays.  From a
  fenced object inside prose the object is taken.
\<close>

theorem cleanJsonResponse_spec_witness:
  "fenced_json_text \<noteq> [] \<and>
   strip_markers fenced_json_text = [] @ js ''[1]'' @ [NEWLINE] \<and>
   \<not> has_brace_pair (js ''[1]'') \<and>
   cleanJsonResponse (Some fenced_json_text) = js ''[1]'' \<and>
   fenced_js_text \<noteq> [] \<and>
   strip_markers fenced_js_text = [] @ (js ''js'' @ [NEWLINE] @ js ''[1]'') @ [NEWLINE] \<and>
   \<not> has_brace_pair (js ''js'' @ [NEWLINE] @ js ''[1]'') \<and>
   cleanJsonResponse (Some fenced_js_text) = js ''js'' @ [NEWLINE] @ js ''[1]'' \<and>
   fenced_object_text \<noteq> [] \<and>
   strip_markers fenced_object_text = js '' '' @ js ''Result: {a}'' @ js '' '' \<and>
   js ''Result: {a}'' = js ''Result: '' @ LBRACE # js ''a'' @ RBRACE # [] \<and>
   cleanJsonResponse (Some fenced_object_text) = LBRACE # js ''a'' @ [RBRACE]"
proof -
  have 1: "cleanJsonResponse (Some fenced_json_text) = js ''[1]''"
    using cleanJsonResponse_spec[of fenced_json_text "[]" "js ''[1]''" "[NEWLINE]"]
      samples_nonempty(1) strip_markers_samples(1) samples_trimmed(2,3,4) samples_braces(1)
    by blast
  have 2: "cleanJsonResponse (Some fenced_js_text) = js ''js'' @ [NEWLINE] @ js ''[1]''"
    using cleanJsonResponse_spec[of fenced_js_text "[]" "js ''js'' @ [NEWLINE] @ js ''[1]''"
        "[NEWLINE]"]
      samples_nonempty(2) strip_markers_samples(2) samples_trimmed(2,3,5) samples_braces(2)
    by blast
  have 3: "cleanJsonResponse (Some fenced_object_text) = LBRACE # js ''a'' @ [RBRACE]"
    using cleanJsonResponse_spec[of fenced_object_text "js '' ''" "js ''Result: {a}''"
        "js '' ''" "js ''Result: ''" "js ''a''" "[]"]
      samples_nonempty(3) strip_markers_samples(3) samples_trimmed(1,6) samples_braces(3,4,5)
    by blast
  from 1 2 3 samples_nonempty strip_markers_samples samples_braces(1,2,3)
  show ?thesis by blast
qed

lemma clean_None: "cleanJsonResponse None = cleanJsonResponse (Some [])"
  by (simp add: cleanJsonResponse_def)

lemma clean_fixed:
  assumes "r \<noteq> []" "\<not> has_fence r" "trim r = r"
  shows "cleanJsonResponse (Some (cleanJsonResponse (Some r))) = cleanJsonResponse (Some r)"
proof -
  have rf: "replace_fences r = r" using assms(2) by (rule replace_fences_id)
  show ?thesis
  proof (cases "has_brace_pair r")
    case False
    with assms rf have "cleanJsonResponse (Some r) = r" by (simp add: clean_no_braces)
    then show ?thesis by simp
  next
    case True
    then obtain pre mid post where
      c: "r = pre @ LBRACE # mid @ RBRACE # post" "LBRACE \<notin> set pre" "RBRACE \<notin> set post"
      using brace_pair_split by blast
    let ?m = "LBRACE # mid @ [RBRACE]"
    from assms(1) c rf assms(3) have 1: "cleanJsonResponse (Some r) = ?m"
      by (intro clean_braces) simp_all
    have "r = pre @ ?m @ post" using c(1) by simp
    then have "\<not> has_fence ?m" using assms(2) has_fence_segment by metis
    then have "replace_fences ?m = ?m" by (rule replace_fences_id)
    moreover have "trim ?m = ?m"
      by (rule trim_fixed) (simp add: LBRACE_not_space RBRACE_not_space)
    ultimately have "trim (replace_fences ?m) = [] @ LBRACE # mid @ RBRACE # []" by simp
    then have "cleanJsonResponse (Some ?m) = ?m"
      using clean_braces[of ?m "[]" mid "[]"] by simp
    with 1 show ?thesis by simp
  qed
qed

lemma clean_js_braces: "cleanJsonResponse (Some (js ''{}'')) = js ''{}''"
proof -
  have "trim (replace_fences (js ''{}'')) = [] @ LBRACE # [] @ RBRACE # []"
    by (simp add: js_def replace_fences_Cons FENCE_JSON_def FENCE_def BACKTICK_def
        trim_def is_space_def LBRACE_def RBRACE_def)
  then have "cleanJsonResponse (Some (js ''{}'')) = LBRACE # [] @ [RBRACE]"
    using clean_braces[of "js ''{}''" "[]" "[]" "[]"] by (simp add: js_def)
  then show ?thesis by (simp add: js_braces)
qed

lemma clean_twice:
  assumes "cleanJsonResponse x \<noteq> []"
  shows "cleanJsonResponse (Some (cleanJsonResponse x)) = cleanJsonResponse x"
proof (cases "x = None \<or> x = Some []")
  case True
  then have "cleanJsonResponse x = js ''{}''" by (auto simp: cleanJsonResponse_def)
  then show ?thesis by (simp add: clean_js_braces)
next
  case False
  then obtain t where x: "x = Some t" "t \<noteq> []" by auto
  let ?c = "trim (replace_fences t)"
  have nf: "\<not> has_fence ?c"
  proof
    assume "has_fence ?c"
    moreover obtain a b where "replace_fences t = a @ ?c @ b" using trim_segment by blast
    ultimately have "has_fence (replace_fences t)" using has_fence_segment by metis
    then show False using replace_fences_no_fence by blast
  qed
  have cc: "cleanJsonResponse (Some ?c) = cleanJsonResponse (Some t)"
  proof (cases "?c = []")
    case True
    then have "\<not> has_brace_pair ?c" using has_brace_pair_LBRACE by fastforce
    with x(2) have "cleanJsonResponse (Some t) = ?c" by (rule clean_no_braces)
    with True assms x show ?thesis by simp
  next
    case False
    have r: "trim (replace_fences ?c) = ?c"
      using nf by (simp add: replace_fences_id trim_trim)
    show ?thesis
      using False x(2) by (simp add: cleanJsonResponse_def r)
  qed
  have ne: "?c \<noteq> []"
  proof
    assume e: "?c = []"
    then have "\<not> has_brace_pair ?c" using has_brace_pair_LBRACE by fastforce
    with x(2) have "cleanJsonResponse (Some t) = ?c" by (rule clean_no_braces)
    with e assms x show False by simp
  qed
  from clean_fixed[OF ne nf trim_trim] show ?thesis unfolding cc x(1) .
qed

text \<open>
  Claim C10 as stated fails.  On a single blank the guard for the empty input does not
  fire, the trimmed text is empty and is returned; on that empty result the guard fires and
  the second application returns \<^verbatim>\<open>{}\<close>.
\<close>

theorem cleanJsonResponse_not_idempotent:
  "cleanJsonResponse (Some (cleanJsonResponse (Some (js '' '')))) = js ''{}'' \<and>
   cleanJsonResponse (Some (js '' '')) = [] \<and>
   cleanJsonResponse (Some (cleanJsonResponse (Some (js '' ''))))
     \<noteq> cleanJsonResponse (Some (js '' ''))"
proof -
  have "cleanJsonResponse (Some (js '' '')) = []"
    by (simp add: cleanJsonResponse_def js_def replace_fences_Cons FENCE_JSON_def FENCE_def
        BACKTICK_def trim_def is_space_def lastIndexOf_def)
  then show ?thesis by (simp add: cleanJsonResponse_def js_def)
qed

text \<open>
  Claim C10, amended.  \<open>cleanJsonResponse\<close> is idempotent on every input whose result is
  not the empty string; where the result is the empty string, the second application
  returns \<^verbatim>\<open>{}\<close>.
\<close>

theorem cleanJsonResponse_idempotent_nonempty:
  "(cleanJsonResponse x \<noteq> [] \<longrightarrow>
      cleanJsonResponse (Some (cleanJsonResponse x)) = cleanJsonResponse x) \<and>
   (cleanJsonResponse x = [] \<longrightarrow>
      cleanJsonResponse (Some (cleanJsonResponse x)) = js ''{}'')"
  using clean_twice[of x] by (simp add: cleanJsonResponse_def)

text \<open>Claim C10, amended, at an object inside prose and at a single blank.\<close>

theorem cleanJsonResponse_idempotent_nonempty_witness:
  "cleanJsonResponse (Some (js ''a{b}c'')) \<noteq> [] \<and>
   cleanJsonResponse (Some (cleanJsonResponse (Some (js ''a{b}c''))))
     = cleanJsonResponse (Some (js ''a{b}c'')) \<and>
   cleanJsonResponse (Some (js '' '')) = [] \<and>
   cleanJsonResponse (Some (cleanJsonResponse (Some (js '' '')))) = js ''{}''"
proof -
  have "cleanJsonResponse (Some (js ''a{b}c'')) = js ''{b}''"
    by (simp add: cleanJsonResponse_def js_def replace_fences_Cons FENCE_JSON_def FENCE_def
        BACKTICK_def trim_def is_space_def lastIndexOf_def LBRACE_def RBRACE_def
        substring_def)
  then have 1: "cleanJsonResponse (Some (js ''a{b}c'')) \<noteq> []" by (simp add: js_def)
  have 2: "cleanJsonResponse (Some (js '' '')) = []"
    by (simp add: cleanJsonResponse_def js_def replace_fences_Cons FENCE_JSON_def FENCE_def
        BACKTICK_def trim_def is_space_def lastIndexOf_def)
  from 1 2 cleanJsonResponse_idempotent_nonempty[of "Some (js ''a{b}c'')"]
    cleanJsonResponse_idempotent_nonempty[of "Some (js '' '')"]
  show ?thesis by blast
qed

text \<open>
  Claim C9 as stated fails.  The poller's pattern keeps a fence marker that stands between
  the braces; \<open>cleanJsonResponse\<close> removes it before it looks for the braces.
\<close>

theorem jsonMatch_keeps_fences:
  "has_brace_pair (js ''{```}'') \<and>
   jsonMatch (js ''{```}'') = Some (js ''{```}'') \<and>
   cleanJsonResponse (Some (js ''{```}'')) = js ''{}'' \<and>
   jsonMatch (js ''{```}'') \<noteq> Some (cleanJsonResponse (Some (js ''{```}'')))"
proof -
  have "js ''{```}'' = [] @ LBRACE # js ''```'' @ RBRACE # []"
    by (simp add: js_def LBRACE_def RBRACE_def)
  then have 1: "has_brace_pair (js ''{```}'')" using split_brace_pair by metis
  have 2: "jsonMatch (js ''{```}'') = Some (js ''{```}'')"
    by (simp add: js_def LBRACE_def RBRACE_def)
  have 3: "cleanJsonResponse (Some (js ''{```}'')) = js ''{}''"
    by (simp add: cleanJsonResponse_def js_def replace_fences_Cons FENCE_JSON_def FENCE_def
        BACKTICK_def trim_def is_space_def lastIndexOf_def LBRACE_def RBRACE_def
        substring_def)
  from 1 2 3 show ?thesis by (simp add: js_def)
qed

lemma clean_between_braces:
  assumes "LBRACE \<notin> set pre" "RBRACE \<notin> set post"
  shows "cleanJsonResponse (Some (pre @ LBRACE # mid @ RBRACE # post))
           = LBRACE # strip_markers mid @ [RBRACE]"
proof -
  let ?s = "pre @ LBRACE # mid @ RBRACE # post"
  let ?pre = "dropWhile is_space (replace_fences pre)"
  let ?post = "rev (dropWhile is_space (rev (replace_fences post)))"
  have "trim (replace_fences ?s) = ?pre @ LBRACE # replace_fences mid @ RBRACE # ?post"
    by (simp only: replace_fences_braces trim_braces)
  moreover have "LBRACE \<notin> set ?pre"
    using assms(1) set_replace_fences[of pre] set_dropWhileD by fastforce
  moreover have "RBRACE \<notin> set ?post"
    using assms(2) set_replace_fences[of post] set_dropWhileD by fastforce
  moreover have "?s \<noteq> []" by simp
  ultimately have "cleanJsonResponse (Some ?s) = LBRACE # replace_fences mid @ [RBRACE]"
    using clean_braces by blast
  then show ?thesis by (simp only: replace_fences_strip_markers)
qed

lemma strip_markers_fixed: "strip_markers m = m \<longleftrightarrow> \<not> has_fence m"
  using replace_fences_id[of m] replace_fences_no_fence[of m]
  by (auto simp: replace_fences_strip_markers)

text \<open>
  Claim C9, amended.  A reply that holds an opening brace with a closing brace behind it
  splits into a part without opening brace, a part from an opening to a closing brace, and
  a part without closing brace.  The poller's pattern extracts the middle part as it is;
  \<open>cleanJsonResponse\<close> returns the middle part with the markers between its two braces
  taken out.  So the two agree for every such reply that has no fence marker between its
  first opening and its last closing brace, wherever else it has markers, and they
  differ for every reply that has one there.
\<close>

theorem jsonMatch_eq_cleanJsonResponse:
  "(has_brace_pair s \<longrightarrow>
      (\<exists>pre mid post. s = pre @ LBRACE # mid @ RBRACE # post \<and>
         LBRACE \<notin> set pre \<and> RBRACE \<notin> set post)) \<and>
   (s = pre @ LBRACE # mid @ RBRACE # post \<and> LBRACE \<notin> set pre \<and> RBRACE \<notin> set post \<longrightarrow>
      jsonMatch s = Some (LBRACE # mid @ [RBRACE]) \<and>
      cleanJsonResponse (Some s) = LBRACE # strip_markers mid @ [RBRACE] \<and>
      (\<not> has_fence mid \<longrightarrow> jsonMatch s = Some (cleanJsonResponse (Some s))) \<and>
      (has_fence mid \<longrightarrow> jsonMatch s \<noteq> Some (cleanJsonResponse (Some s))))"
proof (intro conjI impI)
  assume "has_brace_pair s"
  then show "\<exists>pre mid post. s = pre @ LBRACE # mid @ RBRACE # post \<and>
         LBRACE \<notin> set pre \<and> RBRACE \<notin> set post"
    by (rule brace_pair_split)
next
  assume s: "s = pre @ LBRACE # mid @ RBRACE # post \<and> LBRACE \<notin> set pre \<and> RBRACE \<notin> set post"
  then show m: "jsonMatch s = Some (LBRACE # mid @ [RBRACE])" by (simp add: jsonMatch_split)
  from s show c: "cleanJsonResponse (Some s) = LBRACE # strip_markers mid @ [RBRACE]"
    by (simp add: clean_between_braces)
  {
    assume "\<not> has_fence mid"
    then have "strip_markers mid = mid" by (simp add: strip_markers_fixed)
    with m c show "jsonMatch s = Some (cleanJsonResponse (Some s))" by simp
  }
  {
    assume "has_fence mid"
    then have "strip_markers mid \<noteq> mid" by (simp add: strip_markers_fixed)
    with m c show "jsonMatch s \<noteq> Some (cleanJsonResponse (Some s))" by simp
  }
qed

lemma fenced_object_parts:
  "fenced_object_text = js '' Result: ```json'' @ LBRACE # js ''a'' @ RBRACE # js ''``` ''"
  "LBRACE \<notin> set (js '' Result: ```json'')" "RBRACE \<notin> set (js ''``` '')"
  "\<not> has_fence (js ''a'')" "has_fence fenced_object_text"
  by (simp_all add: fenced_object_text_def js_def LBRACE_def RBRACE_def has_fence_def
      FENCE_def BACKTICK_def sublist_Cons_right)

text \<open>Claim C9, amended, at a reply with a fenced object: the reply has markers, none of
  them between the braces, and the two agree.\<close>

theorem jsonMatch_eq_cleanJsonResponse_witness:
  "has_fence fenced_object_text \<and>
   fenced_object_text = js '' Result: ```json'' @ LBRACE # js ''a'' @ RBRACE # js ''``` '' \<and>
   LBRACE \<notin> set (js '' Result: ```json'') \<and> RBRACE \<notin> set (js ''``` '') \<and>
   \<not> has_fence (js ''a'') \<and>
   jsonMatch fenced_object_text = Some (LBRACE # js ''a'' @ [RBRACE]) \<and>
   jsonMatch fenced_object_text = Some (cleanJsonResponse (Some fenced_object_text))"
  using jsonMatch_eq_cleanJsonResponse[of fenced_object_text "js '' Result: ```json''"
      "js ''a''" "js ''``` ''"] fenced_object_parts
  by blast

subsection \<open>The sample texts\<close>

lemmas sample_texts =
  package_text_def quote_A_text_def quote_B_text_def empty_history_text_def

lemma sample_parse_simps:
  "sample_parse (js ''{}'') = Inr (JObject [])"
  "sample_parse package_text = Inr package_parsed"
  "sample_parse quote_A_text = Inr quote_A_parsed"
  "sample_parse quote_B_text = Inr quote_B_parsed"
  "sample_parse empty_history_text = Inr empty_history_parsed"
  "sample_parse (js ''oops'') = Inl SyntaxError"
  by (simp_all add: sample_parse_def parse_table_def sample_texts js_def)

lemma clean_package_text: "cleanJsonResponse (Some package_text) = package_text"
  by (simp add: package_text_def cleanJsonResponse_def js_def replace_fences_Cons
      FENCE_JSON_def FENCE_def BACKTICK_def trim_def is_space_def lastIndexOf_def
      LBRACE_def RBRACE_def substring_def)

lemma jsonMatch_samples:
  "jsonMatch quote_A_text = Some quote_A_text"
  "jsonMatch quote_B_text = Some quote_B_text"
  "jsonMatch empty_history_text = Some empty_history_text"
  by (simp_all add: sample_texts js_def LBRACE_def RBRACE_def)

lemma sample_texts_nonempty:
  "package_text \<noteq> []" "quote_A_text \<noteq> []" "quote_B_text \<noteq> []" "empty_history_text \<noteq> []"
  by (simp_all add: sample_texts js_def)

lemma js_keys_distinct:
  "js ''history'' \<noteq> js ''currentPrice''" "js ''currentPrice'' \<noteq> js ''history''"
  "js ''history'' \<noteq> js ''length''" "js ''currentPrice'' \<noteq> js ''length''"
  "js ''jsonPrompt'' \<noteq> js ''sources''" "js ''exampleJson'' \<noteq> js ''sources''"
  "js ''jsonPrompt'' \<noteq> js ''exampleJson''" "js ''exampleJson'' \<noteq> js ''jsonPrompt''"
  by (simp_all add: js_def)

lemma incomplete_samples:
  "incomplete quote_A_parsed = Inr False"
  "incomplete quote_B_parsed = Inr False"
  "incomplete empty_history_parsed = Inr True"
  by (simp_all add: incomplete_def quote_A_parsed_def quote_B_parsed_def
      empty_history_parsed_def own_or_undefined_def js_keys_distinct is_number_def)

subsection \<open>discoverJsonPrompts\<close>

lemma discover_Inr:
  assumes "discoverJsonPrompts JSON_parse generate query = Inr result"
  shows "\<exists>r1 r2 parsed.
      generate (ResearchPrompt query) = Returned r1 \<and>
      generate (SynthesisPrompt query
        (or_else (resp_text r1) (js ''No grounded data available.''))) = Returned r2 \<and>
      JSON_parse (cleanJsonResponse (Some (or_else (resp_text r2) (js ''{}'')))) = Inr parsed \<and>
      result = \<lparr> parsed_props = (spread parsed)(js ''sources'' := None),
                 sources = (if length (extract_sources r1) > 0 then extract_sources r1
                            else [fallback_source]) \<rparr>"
  using assms
  unfolding discoverJsonPrompts_def discover_try_def Let_def
  by (auto split: outcome.splits sum.splits)

lemma filter_chunk_source:
  "filter (\<lambda>s. uri s \<noteq> js ''#'') (map chunk_source cs) = List.map_filter citation cs"
proof (induction cs)
  case Nil
  show ?case by (simp add: List.map_filter_simps)
next
  case (Cons c cs)
  have "js ''#'' \<noteq> []" by (simp add: js_def)
  then have "(uri (chunk_source c) \<noteq> js ''#'' \<longrightarrow> citation c = Some (chunk_source c)) \<and>
        (uri (chunk_source c) = js ''#'' \<longrightarrow> citation c = None)"
    by (auto simp: chunk_source_def citation_def or_else_def split: option.splits)
  with Cons show ?case by (auto simp: List.map_filter_simps)
qed

lemma extract_sources_citations:
  "extract_sources r
     = take 5 (List.map_filter citation
         (case grounding_chunks r of None \<Rightarrow> [] | Some cs \<Rightarrow> cs))"
  by (simp add: extract_sources_def filter_chunk_source)

text \<open>
  Claim C4.  Whenever \<open>discoverJsonPrompts\<close> returns, the \<open>sources\<close> of the returned object
  are not empty and at most five.  They are read off the grounding chunks of the first
  candidate of the research reply: the sources of the usable citations among the chunks, in
  their order and cut after the fifth; or the one fallback source, when the reply has no
  chunks or none of its chunks is a usable citation.
\<close>

theorem discover_sources:
  assumes "discoverJsonPrompts JSON_parse generate query = Inr result"
  shows "sources result \<noteq> [] \<and> length (sources result) \<le> 5 \<and>
         (\<exists>r1. generate (ResearchPrompt query) = Returned r1 \<and>
            (candidates r1 = None \<or> candidates r1 = Some [] \<longrightarrow>
               sources result = [fallback_source]) \<and>
            (\<forall>c rest. candidates r1 = Some (c # rest) \<longrightarrow>
               (groundingMetadata c = None \<longrightarrow> sources result = [fallback_source]) \<and>
               (\<forall>m. groundingMetadata c = Some m \<longrightarrow>
                  (groundingChunks m = None \<longrightarrow> sources result = [fallback_source]) \<and>
                  (\<forall>cs. groundingChunks m = Some cs \<longrightarrow>
                     (List.map_filter citation cs = [] \<longrightarrow>
                        sources result = [fallback_source]) \<and>
                     (List.map_filter citation cs \<noteq> [] \<longrightarrow>
                        sources result = take 5 (List.map_filter citation cs))))))"
proof -
  from discover_Inr[OF assms] obtain r1 where
    g: "generate (ResearchPrompt query) = Returned r1" and
    s: "sources result = (if length (extract_sources r1) > 0 then extract_sources r1
                          else [fallback_source])"
    by auto
  have l: "length (extract_sources r1) \<le> 5" by (simp add: extract_sources_def)
  from s have 1: "sources result \<noteq> []" by (auto split: if_splits)
  from s l have 2: "length (sources result) \<le> 5" by (auto split: if_splits)
  have 3: "candidates r1 = None \<or> candidates r1 = Some [] \<longrightarrow>
      sources result = [fallback_source]"
    using s by (auto simp: extract_sources_citations grounding_chunks_def
        List.map_filter_simps)
  have 4: "sources result = [fallback_source]"
    if "candidates r1 = Some (c # rest)" "groundingMetadata c = None" for c rest
    using s that by (simp add: extract_sources_citations grounding_chunks_def
        List.map_filter_simps)
  have 5: "sources result = [fallback_source]"
    if "candidates r1 = Some (c # rest)" "groundingMetadata c = Some m"
      "groundingChunks m = None" for c rest m
    using s that by (simp add: extract_sources_citations grounding_chunks_def
        List.map_filter_simps)
  have 6: "(List.map_filter citation cs = [] \<longrightarrow> sources result = [fallback_source]) \<and>
      (List.map_filter citation cs \<noteq> [] \<longrightarrow>
         sources result = take 5 (List.map_filter citation cs))"
    if "candidates r1 = Some (c # rest)" "groundingMetadata c = Some m"
      "groundingChunks m = Some cs" for c rest m cs
    using s that by (simp add: extract_sources_citations grounding_chunks_def)
  from g 1 2 3 4 5 6 show ?thesis by blast
qed

lemma sample_empty_reply:
  "discoverJsonPrompts sample_parse (\<lambda>r. Returned (reply None))
      (js ''invoice'')
   = Inr \<lparr> parsed_props = Map.empty, sources = [fallback_source] \<rparr>"
  by (simp add: discoverJsonPrompts_def discover_try_def reply_def or_else_def
      clean_js_braces sample_parse_simps extract_sources_def grounding_chunks_def)

lemma uris_usable:
  "js ''https://a.example/1'' \<noteq> js ''#''" "js ''https://a.example/1'' \<noteq> []"
  "js ''https://a.example/2'' \<noteq> js ''#''" "js ''https://a.example/2'' \<noteq> []"
  "js ''https://a.example/3'' \<noteq> js ''#''" "js ''https://a.example/3'' \<noteq> []"
  "js ''https://a.example/4'' \<noteq> js ''#''" "js ''https://a.example/4'' \<noteq> []"
  "js ''https://a.example/5'' \<noteq> js ''#''" "js ''https://a.example/5'' \<noteq> []"
  "js ''https://a.example/6'' \<noteq> js ''#''" "js ''https://a.example/6'' \<noteq> []"
  "js ''One'' \<noteq> []" "js ''Three'' \<noteq> []" "js ''Four'' \<noteq> []" "js ''Five'' \<noteq> []"
  "js ''Six'' \<noteq> []"
  by (simp_all add: js_def)

lemma citations_samples:
  "List.map_filter citation unusable_chunks = []"
  "List.map_filter citation many_chunks
     = first_five @ [\<lparr> title = js ''Six'', uri = js ''https://a.example/6'' \<rparr>]"
  by (simp_all add: unusable_chunks_def many_chunks_def first_five_def page_def citation_def
      List.map_filter_simps uris_usable)

lemma sample_unusable_reply:
  "discoverJsonPrompts sample_parse (\<lambda>r. Returned (chunks_reply None unusable_chunks))
      (js ''invoice'')
   = Inr \<lparr> parsed_props = Map.empty, sources = [fallback_source] \<rparr>"
  by (simp add: discoverJsonPrompts_def discover_try_def chunks_reply_def or_else_def
      clean_js_braces sample_parse_simps extract_sources_citations grounding_chunks_def
      citations_samples)

lemma sample_many_reply:
  "discoverJsonPrompts sample_parse (\<lambda>r. Returned (chunks_reply None many_chunks))
      (js ''invoice'')
   = Inr \<lparr> parsed_props = Map.empty, sources = first_five \<rparr>"
  by (simp add: discoverJsonPrompts_def discover_try_def chunks_reply_def or_else_def
      clean_js_braces sample_parse_simps extract_sources_citations grounding_chunks_def
      citations_samples) (simp add: first_five_def)

text \<open>
  Claim C4 at three research replies: one without candidates, one whose four chunks hold no
  usable citation, and one with eight chunks of which six are usable.
\<close>

theorem discover_sources_witness:
  "discoverJsonPrompts sample_parse (\<lambda>r. Returned (reply None)) (js ''invoice'')
     = Inr \<lparr> parsed_props = Map.empty, sources = [fallback_source] \<rparr> \<and>
   candidates (reply None) = None \<and>
   discoverJsonPrompts sample_parse (\<lambda>r. Returned (chunks_reply None unusable_chunks))
      (js ''invoice'')
     = Inr \<lparr> parsed_props = Map.empty, sources = [fallback_source] \<rparr> \<and>
   List.map_filter citation unusable_chunks = [] \<and>
   discoverJsonPrompts sample_parse (\<lambda>r. Returned (chunks_reply None many_chunks))
      (js ''invoice'')
     = Inr \<lparr> parsed_props = Map.empty, sources = first_five \<rparr> \<and>
   List.map_filter citation many_chunks
     = first_five @ [\<lparr> title = js ''Six'', uri = js ''https://a.example/6'' \<rparr>] \<and>
   take 5 (List.map_filter citation many_chunks) = first_five \<and>
   length first_five \<le> 5"
proof -
  note a = discover_sources[OF sample_empty_reply]
  note b = discover_sources[OF sample_unusable_reply]
  note c = discover_sources[OF sample_many_reply]
  have 1: "candidates (reply None) = None" by (simp add: reply_def)
  have 2: "take 5 (List.map_filter citation many_chunks) = first_five"
    by (simp add: citations_samples) (simp add: first_five_def)
  from c have 3: "length first_five \<le> 5" by simp
  from a b 1 2 3 sample_empty_reply sample_unusable_reply sample_many_reply citations_samples
  show ?thesis by blast
qed

lemma discover_caught:
  assumes "discover_try JSON_parse generate query = Inl e"
  shows "discoverJsonPrompts JSON_parse generate query
           = (case e of
                Nullish \<Rightarrow> Inl TypeError
              | Thrown m \<Rightarrow> Inl (Thrown (Some (or_else m fallback_message))))"
  using assms by (simp add: discoverJsonPrompts_def read_message_def split: thrown.splits)

text \<open>
  Claim C5 as stated fails.  The research call throws \<^verbatim>\<open>undefined\<close>.  The catch clause
  reads the message of the caught value, and that read throws a TypeError: the error that
  leaves the function carries neither a message of the thrown value nor the fallback
  message.
\<close>

theorem discover_rethrow_fails_on_undefined:
  "discoverJsonPrompts sample_parse (\<lambda>r. Threw Nullish) (js ''invoice'') = Inl TypeError \<and>
   TypeError \<noteq> Thrown (Some fallback_message)"
proof -
  have "discover_try sample_parse (\<lambda>r. Threw Nullish) (js ''invoice'') = Inl Nullish"
    by (simp add: discover_try_def)
  then have "discoverJsonPrompts sample_parse (\<lambda>r. Threw Nullish) (js ''invoice'')
      = Inl TypeError"
    by (simp add: discover_caught)
  moreover have "TypeError \<noteq> Thrown (Some fallback_message)"
    by (simp add: TypeError_def fallback_message_def js_def)
  ultimately show ?thesis by simp
qed

text \<open>
  Claim C5, amended.  Let the research call throw, or the synthesis call throw, or the
  sanitized synthesis text not parse.  If the thrown value is not \<^verbatim>\<open>undefined\<close> or
  \<^verbatim>\<open>null\<close>, \<open>discoverJsonPrompts\<close> throws one error that carries the message of the
  thrown value or, when that message is missing or empty, the fallback message.  Whatever
  the thrown value is, the function throws and returns no object.
\<close>

theorem discover_failure:
  "(generate (ResearchPrompt query) = Threw e
    \<or> (generate (ResearchPrompt query) = Returned r1 \<and>
        generate (SynthesisPrompt query
          (or_else (resp_text r1) (js ''No grounded data available.''))) = Threw e)
    \<or> (generate (ResearchPrompt query) = Returned r1 \<and>
        generate (SynthesisPrompt query
          (or_else (resp_text r1) (js ''No grounded data available.''))) = Returned r2 \<and>
        JSON_parse (cleanJsonResponse (Some (or_else (resp_text r2) (js ''{}'')))) = Inl e)
    \<longrightarrow>
      (\<exists>err. discoverJsonPrompts JSON_parse generate query = Inl err) \<and>
      (e = Thrown None \<or> e = Thrown (Some []) \<longrightarrow>
         discoverJsonPrompts JSON_parse generate query = Inl (Thrown (Some fallback_message))) \<and>
      (\<forall>m. e = Thrown (Some m) \<and> m \<noteq> [] \<longrightarrow>
         discoverJsonPrompts JSON_parse generate query = Inl (Thrown (Some m))))"
proof (intro impI)
  assume "generate (ResearchPrompt query) = Threw e
    \<or> (generate (ResearchPrompt query) = Returned r1 \<and>
        generate (SynthesisPrompt query
          (or_else (resp_text r1) (js ''No grounded data available.''))) = Threw e)
    \<or> (generate (ResearchPrompt query) = Returned r1 \<and>
        generate (SynthesisPrompt query
          (or_else (resp_text r1) (js ''No grounded data available.''))) = Returned r2 \<and>
        JSON_parse (cleanJsonResponse (Some (or_else (resp_text r2) (js ''{}'')))) = Inl e)"
  then have "discover_try JSON_parse generate query = Inl e"
    by (auto simp: discover_try_def Let_def)
  from discover_caught[OF this]
  show "(\<exists>err. discoverJsonPrompts JSON_parse generate query = Inl err) \<and>
      (e = Thrown None \<or> e = Thrown (Some []) \<longrightarrow>
         discoverJsonPrompts JSON_parse generate query = Inl (Thrown (Some fallback_message))) \<and>
      (\<forall>m. e = Thrown (Some m) \<and> m \<noteq> [] \<longrightarrow>
         discoverJsonPrompts JSON_parse generate query = Inl (Thrown (Some m)))"
    by (auto simp: or_else_def split: thrown.splits)
qed

lemma sample_plain_text: "cleanJsonResponse (Some (js ''oops'')) = js ''oops''"
proof -
  have "trim (replace_fences (js ''oops'')) = js ''oops''"
    by (simp add: js_def replace_fences_Cons FENCE_JSON_def FENCE_def BACKTICK_def
        trim_def is_space_def)
  moreover have "LBRACE \<notin> set (js ''oops'')" by (simp add: js_def LBRACE_def)
  then have "\<not> has_brace_pair (js ''oops'')" using has_brace_pair_LBRACE by blast
  moreover have "js ''oops'' \<noteq> []" by (simp add: js_def)
  ultimately show ?thesis using clean_no_braces[of "js ''oops''"] by simp
qed

text \<open>Claim C5, amended, at a research call that throws an error with a message, at a
  synthesis call that throws a value without message, and at a synthesis reply that is no
  JSON text.\<close>

theorem discover_failure_witness:
  "discoverJsonPrompts sample_parse (\<lambda>r. Threw (Thrown (Some (js ''quota exceeded''))))
      (js ''invoice'') = Inl (Thrown (Some (js ''quota exceeded''))) \<and>
   discoverJsonPrompts sample_parse
      (\<lambda>r. case r of ResearchPrompt q \<Rightarrow> Returned (reply (Some (js ''facts'')))
                    | SynthesisPrompt q t \<Rightarrow> Threw (Thrown None))
      (js ''invoice'') = Inl (Thrown (Some fallback_message)) \<and>
   sample_parse (cleanJsonResponse (Some (js ''oops''))) = Inl (Thrown (Some (js ''Unexpected token''))) \<and>
   discoverJsonPrompts sample_parse (\<lambda>r. Returned (reply (Some (js ''oops''))))
      (js ''invoice'') = Inl (Thrown (Some (js ''Unexpected token'')))"
proof -
  have ne: "js ''quota exceeded'' \<noteq> []" "js ''oops'' \<noteq> []" "js ''Unexpected token'' \<noteq> []"
    by (simp_all add: js_def)
  have 1: "discoverJsonPrompts sample_parse (\<lambda>r. Threw (Thrown (Some (js ''quota exceeded''))))
      (js ''invoice'') = Inl (Thrown (Some (js ''quota exceeded'')))"
    using discover_failure[of "\<lambda>r. Threw (Thrown (Some (js ''quota exceeded'')))"
        "js ''invoice''" "Thrown (Some (js ''quota exceeded''))" _ _ sample_parse] ne
    by simp
  have 2: "discoverJsonPrompts sample_parse
      (\<lambda>r. case r of ResearchPrompt q \<Rightarrow> Returned (reply (Some (js ''facts'')))
                    | SynthesisPrompt q t \<Rightarrow> Threw (Thrown None))
      (js ''invoice'') = Inl (Thrown (Some fallback_message))"
    using discover_failure[of
        "\<lambda>r. case r of ResearchPrompt q \<Rightarrow> Returned (reply (Some (js ''facts'')))
                    | SynthesisPrompt q t \<Rightarrow> Threw (Thrown None)"
        "js ''invoice''" "Thrown None" "reply (Some (js ''facts''))" _ sample_parse]
    by simp
  have p: "sample_parse (cleanJsonResponse (Some (js ''oops'')))
      = Inl (Thrown (Some (js ''Unexpected token'')))"
    by (simp add: sample_plain_text sample_parse_simps SyntaxError_def)
  have 3: "discoverJsonPrompts sample_parse (\<lambda>r. Returned (reply (Some (js ''oops''))))
      (js ''invoice'') = Inl (Thrown (Some (js ''Unexpected token'')))"
    using discover_failure[of "\<lambda>r. Returned (reply (Some (js ''oops'')))"
        "js ''invoice''" "Thrown (Some (js ''Unexpected token''))" "reply (Some (js ''oops''))"
        "reply (Some (js ''oops''))" sample_parse] ne p
    by (simp add: or_else_def reply_def)
  from 1 2 3 p show ?thesis by blast
qed

text \<open>
  Claim C2 as stated fails.  A synthesis reply without text is replaced by \<^verbatim>\<open>{}\<close>,
  which parses to the empty object; the function returns, and the returned object has
  neither \<^verbatim>\<open>jsonPrompt\<close> nor \<^verbatim>\<open>exampleJson\<close>.
\<close>

theorem discover_returns_without_prompt:
  "discoverJsonPrompts sample_parse (\<lambda>r. Returned (reply None))
      (js ''invoice'')
     = Inr \<lparr> parsed_props = Map.empty, sources = [fallback_source] \<rparr> \<and>
   \<not> nonempty_string
       (parsed_props \<lparr> parsed_props = Map.empty, sources = [fallback_source] \<rparr>
          (js ''jsonPrompt'')) \<and>
   \<not> nonempty_string
       (parsed_props \<lparr> parsed_props = Map.empty, sources = [fallback_source] \<rparr>
          (js ''exampleJson''))"
  by (simp add: sample_empty_reply nonempty_string_def)

text \<open>
  Claim C2, amended.  Whenever \<open>discoverJsonPrompts\<close> returns, the \<^verbatim>\<open>jsonPrompt\<close> and
  the \<^verbatim>\<open>exampleJson\<close> of the returned object are those of the value parsed from the
  sanitized synthesis reply, copied without a check: each is present and a non-empty
  string exactly when it is so in the parsed reply.
\<close>

theorem discover_copies_parsed:
  assumes "discoverJsonPrompts JSON_parse generate query = Inr result"
  shows "\<exists>r1 r2 parsed.
      generate (ResearchPrompt query) = Returned r1 \<and>
      generate (SynthesisPrompt query
        (or_else (resp_text r1) (js ''No grounded data available.''))) = Returned r2 \<and>
      JSON_parse (cleanJsonResponse (Some (or_else (resp_text r2) (js ''{}'')))) = Inr parsed \<and>
      parsed_props result (js ''jsonPrompt'') = spread parsed (js ''jsonPrompt'') \<and>
      parsed_props result (js ''exampleJson'') = spread parsed (js ''exampleJson'') \<and>
      (nonempty_string (parsed_props result (js ''jsonPrompt''))
         \<longleftrightarrow> nonempty_string (spread parsed (js ''jsonPrompt''))) \<and>
      (nonempty_string (parsed_props result (js ''exampleJson''))
         \<longleftrightarrow> nonempty_string (spread parsed (js ''exampleJson'')))"
proof -
  have ne: "js ''jsonPrompt'' \<noteq> js ''sources''" "js ''exampleJson'' \<noteq> js ''sources''"
    by (simp_all add: js_def)
  from discover_Inr[OF assms] obtain r1 r2 parsed where
    g: "generate (ResearchPrompt query) = Returned r1"
       "generate (SynthesisPrompt query
          (or_else (resp_text r1) (js ''No grounded data available.''))) = Returned r2"
       "JSON_parse (cleanJsonResponse (Some (or_else (resp_text r2) (js ''{}'')))) = Inr parsed"
    and r: "parsed_props result = (spread parsed)(js ''sources'' := None)"
    by auto
  from r ne have "parsed_props result (js ''jsonPrompt'') = spread parsed (js ''jsonPrompt'')"
    "parsed_props result (js ''exampleJson'') = spread parsed (js ''exampleJson'')"
    by simp_all
  with g show ?thesis by auto
qed

lemma sample_full_reply:
  "discoverJsonPrompts sample_parse (\<lambda>r. Returned (reply (Some package_text))) (js ''invoice'')
   = Inr \<lparr> parsed_props = (spread package_parsed)(js ''sources'' := None),
           sources = [fallback_source] \<rparr>"
  by (simp add: discoverJsonPrompts_def discover_try_def reply_def or_else_def
      sample_texts_nonempty clean_package_text sample_parse_simps extract_sources_def
      grounding_chunks_def)

text \<open>Claim C2, amended, at a synthesis reply whose object has both properties.\<close>

theorem discover_copies_parsed_witness:
  "discoverJsonPrompts sample_parse (\<lambda>r. Returned (reply (Some package_text))) (js ''invoice'')
   = Inr \<lparr> parsed_props = (spread package_parsed)(js ''sources'' := None),
           sources = [fallback_source] \<rparr> \<and>
   nonempty_string
     (parsed_props \<lparr> parsed_props = (spread package_parsed)(js ''sources'' := None),
                     sources = [fallback_source] \<rparr> (js ''jsonPrompt'')) \<and>
   nonempty_string
     (parsed_props \<lparr> parsed_props = (spread package_parsed)(js ''sources'' := None),
                     sources = [fallback_source] \<rparr> (js ''exampleJson''))"
proof -
  from discover_copies_parsed[OF sample_full_reply] obtain parsed where
    p: "sample_parse (cleanJsonResponse (Some (or_else (resp_text (reply (Some package_text)))
          (js ''{}'')))) = Inr parsed"
    and n: "nonempty_string
     (parsed_props \<lparr> parsed_props = (spread package_parsed)(js ''sources'' := None),
                     sources = [fallback_source] \<rparr> (js ''jsonPrompt''))
       \<longleftrightarrow> nonempty_string (spread parsed (js ''jsonPrompt''))"
      "nonempty_string
     (parsed_props \<lparr> parsed_props = (spread package_parsed)(js ''sources'' := None),
                     sources = [fallback_source] \<rparr> (js ''exampleJson''))
       \<longleftrightarrow> nonempty_string (spread parsed (js ''exampleJson''))"
    by auto
  from p have "parsed = package_parsed"
    by (simp add: reply_def or_else_def sample_texts_nonempty clean_package_text
        sample_parse_simps)
  moreover have "nonempty_string (spread package_parsed (js ''jsonPrompt''))"
    "nonempty_string (spread package_parsed (js ''exampleJson''))"
    by (simp_all add: package_parsed_def nonempty_string_def js_keys_distinct)
      (simp_all add: js_def)
  ultimately show ?thesis using n sample_full_reply by blast
qed

subsection \<open>StockCard\<close>

lemma data_fetch_catch [simp]: "data (fetch_catch isInitial e st) = data st"
  by (simp add: fetch_catch_def Let_def split: sum.splits)

lemma data_fetch_finally [simp]: "data (fetch_finally st) = data st"
  by (simp add: fetch_finally_def)

lemma activeSymbol_fetchMarketData_end [simp]:
  "activeSymbol (fetchMarketData_end JSON_parse isInitial out st) = activeSymbol st"
  by (simp add: fetchMarketData_end_def fetch_finally_def fetch_catch_def Let_def
      split: sum.splits)

lemma lacks_incomplete:
  assumes "lacks_history_or_price parsed"
  shows "incomplete parsed \<noteq> Inr False"
proof -
  consider
      (missing) "get_prop parsed (js ''history'') = Inr JUndefined"
    | (empty) "get_prop parsed (js ''history'') = Inr (JArray [])"
    | (price) "case get_prop parsed (js ''currentPrice'') of
                 Inr (JNumber n) \<Rightarrow> False | _ \<Rightarrow> True"
    using assms unfolding lacks_history_or_price_def by blast
  then show ?thesis
  proof cases
    case missing
    then show ?thesis by (simp add: incomplete_def)
  next
    case empty
    then show ?thesis by (simp add: incomplete_def)
  next
    case price
    then show ?thesis
      by (auto simp: incomplete_def is_number_def split: sum.splits jsval.splits if_splits)
  qed
qed

lemma rejected_data:
  assumes "jsonMatch (or_else (resp_text response) []) = Some m"
    "JSON_parse m = Inr parsed" "incomplete parsed \<noteq> Inr False"
  shows "data (fetchMarketData_end JSON_parse isInitial (Returned response) st) = data st"
proof -
  from assms have "\<exists>e. fetch_try JSON_parse (Returned response) = Inl e"
    by (auto simp: fetch_try_def Let_def split: sum.splits bool.splits)
  then show ?thesis by (auto simp: fetchMarketData_end_def)
qed

lemma data_fetchMarketData_begin:
  "data (fetchMarketData_begin isInitial symbol st) = (if isInitial then None else data st)"
  by (simp add: fetchMarketData_begin_def Let_def)

text \<open>
  Claim C8.  When the parsed reply of a fetch has no history or an empty one, or its current
  price is not a number, the fetch stores nothing: the snapshot after the reply is the
  snapshot before it.  For an initial fetch, which starts by clearing the snapshot, there is
  no snapshot after the reply.
\<close>

theorem rejected_reply_stores_nothing:
  assumes "jsonMatch (or_else (resp_text response) []) = Some m"
    and "JSON_parse m = Inr parsed"
    and "lacks_history_or_price parsed"
  shows "data (fetchMarketData_end JSON_parse isInitial (Returned response) st) = data st \<and>
         data (fetchMarketData_end JSON_parse True (Returned response)
                 (fetchMarketData_begin True symbol st)) = None"
  using rejected_data[where JSON_parse = JSON_parse and m = m, OF assms(1,2)
      lacks_incomplete[OF assms(3)]]
  by (simp add: data_fetchMarketData_begin)

lemma pending_mount: "pending (mount s) = [(s, True)]"
  by (simp add: mount_def effect_def fetchMarketData_begin_def Let_def)

text \<open>Claim C8 at the reply \<^verbatim>\<open>{"currentPrice": 10, "history": []}\<close> to the first fetch
  of a mounted component.\<close>

theorem rejected_reply_stores_nothing_witness:
  "jsonMatch (or_else (resp_text (reply (Some empty_history_text))) []) = Some empty_history_text \<and>
   sample_parse empty_history_text = Inr empty_history_parsed \<and>
   lacks_history_or_price empty_history_parsed \<and>
   data (run sample_parse (mount (js ''AAA''))
          [Reply 0 (Returned (reply (Some empty_history_text)))]) = None"
proof -
  have 1: "jsonMatch (or_else (resp_text (reply (Some empty_history_text))) [])
      = Some empty_history_text"
    by (simp add: reply_def or_else_def sample_texts_nonempty jsonMatch_samples)
  have 2: "sample_parse empty_history_text = Inr empty_history_parsed"
    by (rule sample_parse_simps)
  have 3: "lacks_history_or_price empty_history_parsed"
    by (simp add: lacks_history_or_price_def empty_history_parsed_def own_or_undefined_def
        js_keys_distinct)
  have "data (fetchMarketData_end sample_parse True (Returned (reply (Some empty_history_text)))
          ((mount (js ''AAA''))\<lparr> pending := [] \<rparr>)) = data ((mount (js ''AAA''))\<lparr> pending := [] \<rparr>)"
    using rejected_reply_stores_nothing[where JSON_parse = sample_parse
        and m = empty_history_text, OF 1 2 3] by blast
  moreover have "data (mount (js ''AAA'')) = None"
    by (simp add: mount_def effect_def fetchMarketData_begin_def Let_def)
  ultimately have "data (run sample_parse (mount (js ''AAA''))
          [Reply 0 (Returned (reply (Some empty_history_text)))]) = None"
    by (simp add: run_def step_def pending_mount)
  with 1 2 3 show ?thesis by blast
qed

lemma accepted_stored:
  assumes "accepted JSON_parse response parsed"
  shows "data (fetchMarketData_end JSON_parse isInitial (Returned response) st)
           = Some (snapshot parsed response)"
proof -
  from assms have "fetch_try JSON_parse (Returned response) = Inr (snapshot parsed response)"
    by (auto simp: accepted_def fetch_try_def snapshot_def Let_def split: option.splits)
  then show ?thesis by (simp add: fetchMarketData_end_def fetch_finally_def)
qed

lemma pending_fetchMarketData_end [simp]:
  "pending (fetchMarketData_end JSON_parse isInitial out st) = pending st"
  by (simp add: fetchMarketData_end_def fetch_finally_def fetch_catch_def Let_def
      split: sum.splits)

lemma step_Reply:
  assumes "i < length (pending st)"
  shows "step JSON_parse st (Reply i out)
     = fetchMarketData_end JSON_parse (snd (pending st ! i)) out
         (st\<lparr> pending := take i (pending st) @ drop (Suc i) (pending st) \<rparr>)"
  using assms by (simp add: step_def)

lemma step_SetActiveSymbol:
  assumes "new \<noteq> activeSymbol st"
  shows "pending (step JSON_parse st (SetActiveSymbol new)) = pending st @ [(new, True)]"
    and "activeSymbol (step JSON_parse st (SetActiveSymbol new)) = new"
    and "data (step JSON_parse st (SetActiveSymbol new)) = None"
    and "refreshInterval (step JSON_parse st (SetActiveSymbol new)) = Some new"
  using assms
  by (simp_all add: step_def effect_def cleanup_def fetchMarketData_begin_def Let_def)

lemma step_Tick:
  assumes "refreshInterval st = Some s"
  shows "pending (step JSON_parse st Tick) = pending st @ [(s, False)]"
    and "activeSymbol (step JSON_parse st Tick) = activeSymbol st"
    and "data (step JSON_parse st Tick) = data st"
    and "refreshInterval (step JSON_parse st Tick) = Some s"
  using assms by (simp_all add: step_def fetchMarketData_begin_def Let_def)

lemma run_Nil [simp]: "run JSON_parse st [] = st"
  by (simp add: run_def)

lemma run_Cons [simp]:
  "run JSON_parse st (ev # evs) = run JSON_parse (step JSON_parse st ev) evs"
  by (simp add: run_def)

text \<open>
  Claim C1, amended.  Let the subject change while one fetch for the old subject awaits
  its reply, and let both replies be accepted.  The change clears the snapshot and
  starts a fetch for the new subject.  After both replies the snapshot is the one of the
  reply that came last: the new subject's if the old subject's reply came first, the old
  subject's if it came after the new one.  No reply is discarded for its subject.
\<close>

theorem last_reply_wins:
  assumes "pending st = [(old, isInitial)]"
    and "new \<noteq> activeSymbol st"
    and "accepted JSON_parse r_old p_old"
    and "accepted JSON_parse r_new p_new"
  shows "pending (step JSON_parse st (SetActiveSymbol new)) = [(old, isInitial), (new, True)] \<and>
         data (step JSON_parse st (SetActiveSymbol new)) = None \<and>
         activeSymbol (run JSON_parse st
            [SetActiveSymbol new, Reply 0 (Returned r_old), Reply 0 (Returned r_new)]) = new \<and>
         data (run JSON_parse st
            [SetActiveSymbol new, Reply 0 (Returned r_old), Reply 0 (Returned r_new)])
           = Some (snapshot p_new r_new) \<and>
         activeSymbol (run JSON_parse st
            [SetActiveSymbol new, Reply 1 (Returned r_new), Reply 0 (Returned r_old)]) = new \<and>
         data (run JSON_parse st
            [SetActiveSymbol new, Reply 1 (Returned r_new), Reply 0 (Returned r_old)])
           = Some (snapshot p_old r_old)"
proof -
  let ?s1 = "step JSON_parse st (SetActiveSymbol new)"
  have p1: "pending ?s1 = [(old, isInitial), (new, True)]"
    and a1: "activeSymbol ?s1 = new" and d1: "data ?s1 = None"
    using step_SetActiveSymbol[OF assms(2)] assms(1) by simp_all
  let ?a = "step JSON_parse ?s1 (Reply 0 (Returned r_old))"
  have pa: "pending ?a = [(new, True)]" and aa: "activeSymbol ?a = new"
    using p1 a1 by (simp_all add: step_Reply)
  let ?a2 = "step JSON_parse ?a (Reply 0 (Returned r_new))"
  have "data ?a2 = Some (snapshot p_new r_new)" "activeSymbol ?a2 = new"
    using pa aa accepted_stored[OF assms(4)] by (simp_all add: step_Reply)
  moreover
  let ?b = "step JSON_parse ?s1 (Reply 1 (Returned r_new))"
  have pb: "pending ?b = [(old, isInitial)]" and ab: "activeSymbol ?b = new"
    using p1 a1 by (simp_all add: step_Reply)
  let ?b2 = "step JSON_parse ?b (Reply 0 (Returned r_old))"
  have "data ?b2 = Some (snapshot p_old r_old)" "activeSymbol ?b2 = new"
    using pb ab accepted_stored[OF assms(3)] by (simp_all add: step_Reply)
  ultimately show ?thesis using p1 d1 by simp
qed

lemma accepted_samples:
  "accepted sample_parse (reply (Some quote_A_text)) quote_A_parsed"
  "accepted sample_parse (reply (Some quote_B_text)) quote_B_parsed"
  by (simp_all add: accepted_def reply_def or_else_def sample_texts_nonempty
      jsonMatch_samples sample_parse_simps incomplete_samples)

lemma mount_simps:
  "pending (mount s) = [(s, True)]" "activeSymbol (mount s) = s"
  "refreshInterval (mount s) = Some s" "data (mount s) = None"
  by (simp_all add: mount_def effect_def fetchMarketData_begin_def Let_def)

lemma snapshots_differ:
  "snapshot quote_A_parsed (reply (Some quote_A_text))
     \<noteq> snapshot quote_B_parsed (reply (Some quote_B_text))"
proof
  assume "snapshot quote_A_parsed (reply (Some quote_A_text))
     = snapshot quote_B_parsed (reply (Some quote_B_text))"
  then have "market_props (snapshot quote_A_parsed (reply (Some quote_A_text)))
               (js ''currentPrice'')
           = market_props (snapshot quote_B_parsed (reply (Some quote_B_text)))
               (js ''currentPrice'')" by simp
  moreover have "js ''currentPrice'' \<noteq> js ''sourceUrl''" by (simp add: js_def)
  ultimately show False
    by (simp add: snapshot_def quote_A_parsed_def quote_B_parsed_def)
qed

text \<open>Claim C1, amended, at a mounted component whose first fetch is still in flight
  when the subject changes.\<close>

theorem last_reply_wins_witness:
  "pending (mount (js ''AAA'')) = [(js ''AAA'', True)] \<and>
   js ''BBB'' \<noteq> activeSymbol (mount (js ''AAA'')) \<and>
   accepted sample_parse (reply (Some quote_A_text)) quote_A_parsed \<and>
   accepted sample_parse (reply (Some quote_B_text)) quote_B_parsed \<and>
   data (run sample_parse (mount (js ''AAA''))
      [SetActiveSymbol (js ''BBB''), Reply 0 (Returned (reply (Some quote_A_text))),
       Reply 0 (Returned (reply (Some quote_B_text)))])
     = Some (snapshot quote_B_parsed (reply (Some quote_B_text))) \<and>
   data (run sample_parse (mount (js ''AAA''))
      [SetActiveSymbol (js ''BBB''), Reply 1 (Returned (reply (Some quote_B_text))),
       Reply 0 (Returned (reply (Some quote_A_text)))])
     = Some (snapshot quote_A_parsed (reply (Some quote_A_text)))"
proof -
  have ne: "js ''BBB'' \<noteq> activeSymbol (mount (js ''AAA''))"
    by (simp add: mount_simps js_def)
  from last_reply_wins[OF mount_simps(1) ne accepted_samples]
    mount_simps(1) ne accepted_samples
  show ?thesis by blast
qed

text \<open>
  Claim C1 as stated fails.  A component shows subject AAA; its interval fires and a
  refresh fetch for AAA is in flight when the subject changes to BBB.  The reply for BBB
  arrives and is stored; then the reply for AAA arrives and is stored over it.  The
  component ends with subject BBB and the snapshot of AAA.
\<close>

theorem stale_reply_overwrites:
  "activeSymbol (run sample_parse (mount (js ''AAA''))
      [Reply 0 (Returned (reply (Some quote_A_text))), Tick, SetActiveSymbol (js ''BBB''),
       Reply 1 (Returned (reply (Some quote_B_text))),
       Reply 0 (Returned (reply (Some quote_A_text)))]) = js ''BBB'' \<and>
   data (run sample_parse (mount (js ''AAA''))
      [Reply 0 (Returned (reply (Some quote_A_text))), Tick, SetActiveSymbol (js ''BBB''),
       Reply 1 (Returned (reply (Some quote_B_text)))])
     = Some (snapshot quote_B_parsed (reply (Some quote_B_text))) \<and>
   data (run sample_parse (mount (js ''AAA''))
      [Reply 0 (Returned (reply (Some quote_A_text))), Tick, SetActiveSymbol (js ''BBB''),
       Reply 1 (Returned (reply (Some quote_B_text))),
       Reply 0 (Returned (reply (Some quote_A_text)))])
     = Some (snapshot quote_A_parsed (reply (Some quote_A_text))) \<and>
   snapshot quote_A_parsed (reply (Some quote_A_text))
     \<noteq> snapshot quote_B_parsed (reply (Some quote_B_text))"
proof -
  let ?A = "Returned (reply (Some quote_A_text))" and ?B = "Returned (reply (Some quote_B_text))"
  let ?s1 = "step sample_parse (mount (js ''AAA'')) (Reply 0 ?A)"
  have s1: "pending ?s1 = []" "activeSymbol ?s1 = js ''AAA''"
    "refreshInterval ?s1 = Some (js ''AAA'')"
    by (simp_all add: step_Reply mount_simps)
      (simp add: fetchMarketData_end_def fetch_finally_def fetch_catch_def Let_def mount_simps
        split: outcome.splits option.splits sum.splits bool.splits)
  let ?s2 = "step sample_parse ?s1 Tick"
  have s2: "pending ?s2 = [(js ''AAA'', False)]" "activeSymbol ?s2 = js ''AAA''"
    using step_Tick[OF s1(3)] s1 by simp_all
  let ?s3 = "step sample_parse ?s2 (SetActiveSymbol (js ''BBB''))"
  have ne: "js ''BBB'' \<noteq> activeSymbol ?s2" using s2 by (simp add: js_def)
  have s3: "pending ?s3 = [(js ''AAA'', False), (js ''BBB'', True)]"
    "activeSymbol ?s3 = js ''BBB''"
    using step_SetActiveSymbol[OF ne] s2 by simp_all
  let ?s4 = "step sample_parse ?s3 (Reply 1 ?B)"
  have s4: "pending ?s4 = [(js ''AAA'', False)]" "activeSymbol ?s4 = js ''BBB''"
    "data ?s4 = Some (snapshot quote_B_parsed (reply (Some quote_B_text)))"
    using s3 accepted_stored[OF accepted_samples(2)] by (simp_all add: step_Reply)
  let ?s5 = "step sample_parse ?s4 (Reply 0 ?A)"
  have s5: "activeSymbol ?s5 = js ''BBB''"
    "data ?s5 = Some (snapshot quote_A_parsed (reply (Some quote_A_text)))"
    using s4 accepted_stored[OF accepted_samples(1)] by (simp_all add: step_Reply)
  from s4 s5 snapshots_differ show ?thesis by simp
qed

subsection \<open>ChatWidget\<close>

lemma set_last_text_snoc:
  "set_last_text full (pre @ [m]) = Some (pre @ [m\<lparr> msg_text := full \<rparr>])"
  by (simp add: set_last_text_def nth_append)

lemma stream_loop_snoc:
  "stream_loop cs full (pre @ [m])
     = Some (pre @ [if cs = [] then m else m\<lparr> msg_text := full @ fragments_text cs \<rparr>])"
proof (induction cs arbitrary: full m)
  case Nil
  show ?case by simp
next
  case (Cons c cs)
  let ?f = "full @ or_else c []"
  have "stream_loop (c # cs) full (pre @ [m])
      = stream_loop cs ?f (pre @ [m\<lparr> msg_text := ?f \<rparr>])"
    by (simp add: set_last_text_snoc Let_def)
  also have "\<dots> = Some (pre @ [if cs = [] then m\<lparr> msg_text := ?f \<rparr>
                                else m\<lparr> msg_text := ?f, msg_text := ?f @ fragments_text cs \<rparr>])"
    by (rule Cons.IH)
  also have "\<dots> = Some (pre @ [m\<lparr> msg_text := full @ fragments_text (c # cs) \<rparr>])"
    by (simp add: fragments_text_def)
  finally show ?case by simp
qed

lemma handleSend_Chunks:
  assumes "trim (input st) \<noteq> []" "\<not> isTyping st"
  shows "handleSend now1 now2 (Chunks cs) st
     = Some ((initChat st)
         \<lparr> messages := messages st @
              [\<lparr> msg_id = decimal now1, role = User, msg_text = trim (input st) \<rparr>,
               \<lparr> msg_id = decimal (now2 + 1), role = Model, msg_text = fragments_text cs \<rparr>],
           input := [], isTyping := False \<rparr>)"
proof -
  let ?u = "\<lparr> msg_id = decimal now1, role = User, msg_text = trim (input st) \<rparr>"
  let ?r = "\<lparr> msg_id = decimal (now2 + 1), role = Model, msg_text = [] \<rparr>"
  have "stream_loop cs [] ((messages st @ [?u]) @ [?r])
      = Some ((messages st @ [?u]) @
          [if cs = [] then ?r else ?r\<lparr> msg_text := [] @ fragments_text cs \<rparr>])"
    by (rule stream_loop_snoc)
  then have "stream_loop cs [] (messages st @ [?u, ?r])
      = Some (messages st @ [?u, ?r\<lparr> msg_text := fragments_text cs \<rparr>])"
    by (cases cs) (simp_all add: fragments_text_def)
  then show ?thesis using assms
    by (simp add: handleSend_def Let_def initChat_def split: option.splits)
qed

lemma send_Chunks:
  assumes "trim txt \<noteq> []" "\<not> isTyping st"
  shows "send txt now1 now2 (Chunks cs) st
     = Some ((initChat st)
         \<lparr> messages := messages st @
              [\<lparr> msg_id = decimal now1, role = User, msg_text = trim txt \<rparr>,
               \<lparr> msg_id = decimal (now2 + 1), role = Model, msg_text = fragments_text cs \<rparr>],
           input := [], isTyping := False \<rparr>)"
  using assms handleSend_Chunks[of "setInput txt st" now1 now2 cs]
  by (simp add: send_def setInput_def initChat_def split: option.splits)









text \<open>When the widget is rendered under a context with another title between the two
  messages, the effect drops the chat and the turns: the widget ends with three turns and
  a chat created with the new context.\<close>

lemma sends_across_contexts:
  assumes "\<not> isTyping st" and "trim u1 \<noteq> []" and "trim u2 \<noteq> []"
    and "map_option ctx_title (currentContext st) \<noteq> Some (ctx_title c)"
  shows "\<exists>st1 st2.
      send u1 t1 t2 (Chunks cs1) st = Some st1 \<and>
      send u2 t3 t4 (Chunks cs2) (render_with (Some c) now st1) = Some st2 \<and>
      messages st2 =
        [analysed_message c now,
         \<lparr> msg_id = decimal t3, role = User, msg_text = trim u2 \<rparr>,
         \<lparr> msg_id = decimal (t4 + 1), role = Model, msg_text = fragments_text cs2 \<rparr>] \<and>
      chatInstance st2 = Some (Some c)"
proof -
  from send_Chunks[OF assms(2,1)] obtain st1 where
    1: "send u1 t1 t2 (Chunks cs1) st = Some st1"
    and t1: "\<not> isTyping st1" and c1: "currentContext st1 = currentContext st"
    by (simp add: initChat_def split: option.splits)
  let ?r = "render_with (Some c) now st1"
  have r: "messages ?r = [analysed_message c now]" "chatInstance ?r = None"
    "currentContext ?r = Some c" "\<not> isTyping ?r"
  proof -
    have "map_option ctx_title (Some c) \<noteq> map_option ctx_title (currentContext st1)"
      using assms(4) c1 by (cases "currentContext st") auto
    then have "?r = context_effect now (st1\<lparr> currentContext := Some c \<rparr>)"
      unfolding render_with_def Let_def by (rule if_not_P)
    with t1 show "messages ?r = [analysed_message c now]" "chatInstance ?r = None"
      "currentContext ?r = Some c" "\<not> isTyping ?r"
      by (simp_all add: context_effect_def)
  qed
  from send_Chunks[OF assms(3) r(4)] r(1,2,3) 1 show ?thesis
    by (simp add: initChat_def)
qed

subsection \<open>ResultView\<close>

lemma derivedSchema_validateAgainstSchema [simp]:
  "derivedSchema (validateAgainstSchema generate result st) = derivedSchema st"
  by (simp add: validateAgainstSchema_def Let_def split: option.splits outcome.splits)

lemma derivedSchema_validations [simp]:
  "derivedSchema (validations gens result st) = derivedSchema st"
  unfolding validations_def by (induction gens arbitrary: st) simp_all








end
